theory Spec2Isabelle
  imports Complex_Main
begin

section \<open>Python strings\<close>

text \<open>
  A Python \<open>str\<close> is a sequence of Unicode code points, and \<open>len\<close> counts code
  points. The solvers use three character-level operations of \<open>str\<close>: \<open>isalnum\<close>,
  \<open>upper\<close> and \<open>strip\<close>. On ASCII their behaviour is fixed below. Beyond ASCII it
  is given by the Unicode character database of the interpreter, which is no part of the
  repository: it is a parameter of the model (\<open>ucd\<close>).
\<close>

type_synonym codepoint = nat
type_synonym pystr = "codepoint list"

record ucd =
  ucd_isalnum :: "codepoint \<Rightarrow> bool"
  ucd_upper :: "codepoint \<Rightarrow> pystr"
  ucd_isspace :: "codepoint \<Rightarrow> bool"

definition lit :: "string \<Rightarrow> pystr" where
  "lit s = map of_char s"

definition is_ascii :: "codepoint \<Rightarrow> bool" where
  "is_ascii c = (c < 128)"

definition ascii_digit :: "codepoint \<Rightarrow> bool" where
  "ascii_digit c = (48 \<le> c \<and> c \<le> 57)"

definition ascii_upper :: "codepoint \<Rightarrow> bool" where
  "ascii_upper c = (65 \<le> c \<and> c \<le> 90)"

definition ascii_lower :: "codepoint \<Rightarrow> bool" where
  "ascii_lower c = (97 \<le> c \<and> c \<le> 122)"

text \<open>\<open>char.isalnum()\<close> for a one-character string.\<close>

definition py_isalnum :: "ucd \<Rightarrow> codepoint \<Rightarrow> bool" where
  "py_isalnum U c =
     (if is_ascii c then ascii_digit c \<or> ascii_upper c \<or> ascii_lower c
      else ucd_isalnum U c)"

text \<open>
  \<open>str.upper()\<close> maps every character on its own, by the full case mapping: the image
  of one character may be several (\<open>'\<ss>'.upper() == 'SS'\<close>).
\<close>

definition upper_cp :: "ucd \<Rightarrow> codepoint \<Rightarrow> pystr" where
  "upper_cp U c =
     (if is_ascii c then (if ascii_lower c then [c - 32] else [c])
      else ucd_upper U c)"

definition py_upper :: "ucd \<Rightarrow> pystr \<Rightarrow> pystr" where
  "py_upper U s = concat (map (upper_cp U) s)"

text \<open>
  \<open>str.isspace()\<close>: the ASCII white space of Python is TAB, LF, VT, FF, CR, the four
  separators 0x1C..0x1F and the blank.
\<close>

definition py_isspace :: "ucd \<Rightarrow> codepoint \<Rightarrow> bool" where
  "py_isspace U c =
     (if is_ascii c then (9 \<le> c \<and> c \<le> 13) \<or> (28 \<le> c \<and> c \<le> 32)
      else ucd_isspace U c)"

definition py_strip :: "ucd \<Rightarrow> pystr \<Rightarrow> pystr" where
  "py_strip U s = rev (dropWhile (py_isspace U) (rev (dropWhile (py_isspace U) s)))"

text \<open>\<open>text.replace(old, new)\<close> where \<open>old\<close> and \<open>new\<close> are one character each.\<close>

definition py_replace :: "codepoint \<Rightarrow> codepoint \<Rightarrow> pystr \<Rightarrow> pystr" where
  "py_replace old new s = map (\<lambda>c. if c = old then new else c) s"

section \<open>The error corrector\<close>

text \<open>
  The dictionary \<open>replacements\<close> of \<open>_fix_common_errors\<close>, in insertion order (the
  order in which \<open>items()\<close> yields it): \<open>'0': 'O', '1': 'I', '5': 'S', '8': 'B'\<close>.
\<close>

definition replacements :: "(codepoint \<times> codepoint) list" where
  "replacements = [(48, 79), (49, 73), (53, 83), (56, 66)]"

definition fix_common_errors :: "ucd \<Rightarrow> pystr \<Rightarrow> pystr" where
  "fix_common_errors U text =
     fold (\<lambda>(error, correction) t. py_replace error correction t) replacements
       (py_upper U (filter (py_isalnum U) text))"

text \<open>
  An excerpt of the Unicode character database, for the closed examples: U+00E9 (e with
  acute) is a letter with upper case U+00C9; U+00C9 is a letter, its own upper case;
  U+01F0 (j with caron) is a letter whose upper case is the two code points U+004A
  U+030C; U+030C (combining caron) is a mark, not alphanumeric. The entries of every
  other code point are placeholders that no statement below reads.
\<close>

definition ucd_excerpt :: ucd where
  "ucd_excerpt =
     \<lparr> ucd_isalnum = (\<lambda>c. c = 233 \<or> c = 201 \<or> c = 496),
       ucd_upper = (\<lambda>c. if c = 233 then [201] else if c = 496 then [74, 780] else [c]),
       ucd_isspace = (\<lambda>c. False) \<rparr>"

text \<open>
  What the four replacements do to one character when applied one after the other, and
  the characters the corrector leaves alone: the capital letters and the digits other
  than 0, 1, 5, 8. Both are used in the statements and proofs only.
\<close>

definition subst_cp :: "codepoint \<Rightarrow> codepoint" where
  "subst_cp c =
     (if c = 48 then 79 else if c = 49 then 73 else if c = 53 then 83
      else if c = 56 then 66 else c)"

definition corrected_cp :: "codepoint \<Rightarrow> bool" where
  "corrected_cp c =
     (ascii_upper c \<or> (ascii_digit c \<and> c \<noteq> 48 \<and> c \<noteq> 49 \<and> c \<noteq> 53 \<and> c \<noteq> 56))"


section \<open>The external surface and the solver state\<close>

text \<open>
  The browser, the network, the clock, the image library and the file deletion of the
  operating system are outside the repository. They are a record of operations on an
  abstract world \<open>'w\<close>; every statement below holds for every such record. An
  operation that raises is a result of its own: \<open>False\<close> or \<open>None\<close>.
  \<^item> \<open>find_captcha_input\<close>: \<open>driver.find_element(By.ID, "captchacharacters")\<close>;
    \<open>True\<close> when the element is returned, \<open>False\<close> when the call raises.
  \<^item> \<open>query_captcha_input\<close>: \<open>page.query_selector("#captchacharacters")\<close> of
    Playwright; \<open>Some True\<close> when it returns an element, \<open>Some False\<close> when it returns
    \<open>None\<close>, \<open>None\<close> when it raises.
  \<^item> \<open>fetch_captcha_image\<close>: locating the image, reading its \<open>src\<close> and
    \<open>requests.get\<close>; \<open>None\<close> when anything in the \<open>try\<close> block of
    \<open>_download_captcha_image\<close> raises.
  \<^item> \<open>save_screenshot\<close>: \<open>driver.save_screenshot(path)\<close>; \<open>False\<close> when it raises.
  \<^item> \<open>enter_text\<close>: \<open>input_field.clear()\<close> and \<open>input_field.send_keys(text)\<close>.
  \<^item> \<open>click_continue\<close>: finding the button "Continue shopping" and clicking it.
  \<^item> \<open>click_try_different\<close>: finding the link "Try different image" and clicking it.
  \<^item> \<open>sleep\<close>, \<open>clock\<close>: \<open>time.sleep(n)\<close> and \<open>time.time()\<close>; a reading of the clock is
    a double, taken here as the real number it stands for.
  \<^item> \<open>float_sub\<close>: the subtraction of two doubles as the machine computes it, rounding
    included; it is the \<open>-\<close> of \<open>time.time() - start_time\<close>.
  \<^item> \<open>cv_pipeline\<close>: decoding the image bytes and the fixed OpenCV pipeline of
    \<open>_preprocess_image\<close>; \<open>None\<close> when a step raises.
  \<^item> \<open>os_remove\<close>: whether \<open>os.remove(path)\<close> succeeds.
  \<^item> \<open>unicode\<close>: the character tables beyond ASCII.
  File writes are taken to succeed; directories are not modelled.
\<close>

type_synonym bytes = "nat list"
type_synonym bitmap = "nat list list"

datatype content = RawImage bytes | BitmapImage bitmap | ScreenshotImage

record 'w env =
  find_captcha_input :: "'w \<Rightarrow> bool \<times> 'w"
  query_captcha_input :: "'w \<Rightarrow> bool option \<times> 'w"
  fetch_captcha_image :: "'w \<Rightarrow> bytes option \<times> 'w"
  save_screenshot :: "'w \<Rightarrow> bool \<times> 'w"
  enter_text :: "pystr \<Rightarrow> 'w \<Rightarrow> bool \<times> 'w"
  click_continue :: "'w \<Rightarrow> bool \<times> 'w"
  click_try_different :: "'w \<Rightarrow> bool \<times> 'w"
  sleep :: "nat \<Rightarrow> 'w \<Rightarrow> 'w"
  clock :: "'w \<Rightarrow> real"
  float_sub :: "real \<Rightarrow> real \<Rightarrow> real"
  cv_pipeline :: "bytes \<Rightarrow> bitmap option"
  os_remove :: "string \<Rightarrow> bool"
  unicode :: ucd

text \<open>
  The log of a run: the calls made to the external surface with their results, the
  lines the solver writes to its logger that tell the ways of returning apart, and
  \<open>Cycle n\<close>, a mark that the body of the \<open>while\<close> loop is entered with
  \<open>attempt == n\<close>. \<open>Download d\<close> carries the bytes downloaded and \<open>Preprocess b\<close> the
  bitmap that \<open>_preprocess_image\<close> returns (\<open>None\<close>: the method returned \<open>None\<close>);
  \<open>Screenshot p ok\<close> names the file. The solver never reads the log.
\<close>

datatype event =
    Cycle int
  | FindInput bool
  | QueryRaised
  | Download "bytes option"
  | Screenshot string bool
  | Preprocess "bitmap option"
  | Recognize pystr
  | EnterText pystr bool
  | ClickContinue bool
  | TryDifferentImage bool
  | Sleep nat
  | Remove string bool
  | LogUnavailable
  | LogNoCaptcha
  | LogSolved
  | LogGaveUp
  | LogManualSolved
  | LogManualTimeout

record 'w state =
  world :: 'w
  files :: "string \<rightharpoonup> content"
  attempt :: int
  trace :: "event list"

text \<open>
  The solver object. \<open>AmazonCaptchaSolver\<close> (captcha_solver.py) and
  \<open>SeleniumCaptchaSolver\<close> (selenium_captcha_solver.py) have the same code, but the
  second class defines neither \<open>_cleanup_files\<close> nor \<open>solve_captcha_with_fallback\<close>,
  and its \<open>solve_captcha\<close> calls \<open>self._cleanup_files\<close> all the same.
  \<open>PlaywrightCaptchaSolver\<close> (playwright_captcha_solver.py) has the same fields and
  helper methods and a \<open>solve_captcha\<close> of its own, \<open>playwright_solve_captcha\<close> below,
  which never reads the field \<open>variant\<close>.
  \<open>reader\<close> is \<open>self.reader\<close>: \<open>None\<close>, or the \<open>readtext\<close> of the engine, which
  yields the recognised fragments or raises (\<open>None\<close>).
\<close>

datatype variant = Amazon | Selenium

record solver =
  variant :: variant
  output_dir :: string
  save_debug_output :: bool
  reader :: "(bitmap \<Rightarrow> pystr list option) option"

text \<open>\<open>__init__\<close>; \<open>engine\<close> is what \<open>easyocr.Reader\<close> gives, \<open>None\<close> when it raises.\<close>

definition init_solver ::
  "variant \<Rightarrow> string \<Rightarrow> bool \<Rightarrow> (bitmap \<Rightarrow> pystr list option) option \<Rightarrow> solver" where
  "init_solver v dir dbg engine =
     \<lparr> variant = v, output_dir = dir, save_debug_output = dbg, reader = engine \<rparr>"

subsection \<open>File names\<close>

text \<open>\<open>os.path.join(a, b)\<close> on POSIX, and \<open>str(n)\<close> for the f-string of the screenshot.\<close>

definition path_join :: "string \<Rightarrow> string \<Rightarrow> string" where
  "path_join a b =
     (if b \<noteq> [] \<and> hd b = CHR ''/'' then b
      else if a = [] \<or> last a = CHR ''/'' then a @ b
      else a @ ''/'' @ b)"

definition digit_char :: "nat \<Rightarrow> char" where
  "digit_char d = ''0123456789'' ! (d mod 10)"

fun str_of_nat :: "nat \<Rightarrow> string" where
  "str_of_nat n =
     (if n < 10 then [digit_char n] else str_of_nat (n div 10) @ [digit_char (n mod 10)])"

definition str_of_int :: "int \<Rightarrow> string" where
  "str_of_int i = (if i < 0 then CHR ''-'' # str_of_nat (nat (- i)) else str_of_nat (nat i))"

definition temp_captcha_path :: "solver \<Rightarrow> string" where
  "temp_captcha_path S = path_join (output_dir S) ''temp_captcha.png''"

definition preprocessed_path :: "solver \<Rightarrow> string" where
  "preprocessed_path S = path_join (output_dir S) ''preprocessed_captcha.png''"

definition screenshot_path :: "solver \<Rightarrow> int \<Rightarrow> string" where
  "screenshot_path S k =
     path_join (output_dir S) (''captcha_screenshot_'' @ str_of_int k @ ''.png'')"


section \<open>The solver\<close>

definition emit :: "event list \<Rightarrow> 'w state \<Rightarrow> 'w state" where
  "emit evs st = st\<lparr>trace := trace st @ evs\<rparr>"

text \<open>\<open>attempt += 1\<close>\<close>

definition next_attempt :: "'w state \<Rightarrow> 'w state" where
  "next_attempt st = st\<lparr>attempt := attempt st + 1\<rparr>"

text \<open>
  \<open>_download_captcha_image\<close>: the path of the file written when debugging is on, the
  bytes in memory otherwise, \<open>None\<close> on any exception.
\<close>

datatype image_ref = ImagePath string | ImageBuffer bytes

definition download_captcha_image ::
  "'w env \<Rightarrow> solver \<Rightarrow> 'w state \<Rightarrow> image_ref option \<times> 'w state" where
  "download_captcha_image E S st =
     (case fetch_captcha_image E (world st) of
        (None, w) \<Rightarrow> (None, emit [Download None] (st\<lparr>world := w\<rparr>))
      | (Some data, w) \<Rightarrow>
          if save_debug_output S
          then (Some (ImagePath (temp_captcha_path S)),
                emit [Download (Some data)]
                  (st\<lparr>world := w,
                     files := (files st)(temp_captcha_path S \<mapsto> RawImage data)\<rparr>))
          else (Some (ImageBuffer data), emit [Download (Some data)] (st\<lparr>world := w\<rparr>)))"

text \<open>
  \<open>_preprocess_image\<close>: \<open>cv2.imdecode\<close> of the buffer or \<open>cv2.imread\<close> of the path,
  then the pipeline; the result is written to \<open>preprocessed_captcha.png\<close> when debugging
  is on. \<open>None\<close> on any exception (an unreadable file makes \<open>cvtColor\<close> raise).
\<close>

definition read_image :: "'w state \<Rightarrow> image_ref \<Rightarrow> bytes option" where
  "read_image st r =
     (case r of
        ImageBuffer data \<Rightarrow> Some data
      | ImagePath p \<Rightarrow> (case files st p of Some (RawImage data) \<Rightarrow> Some data | _ \<Rightarrow> None))"

definition preprocess_image ::
  "'w env \<Rightarrow> solver \<Rightarrow> image_ref \<Rightarrow> 'w state \<Rightarrow> bitmap option \<times> 'w state" where
  "preprocess_image E S r st =
     (case read_image st r of
        None \<Rightarrow> (None, emit [Preprocess None] st)
      | Some data \<Rightarrow>
          (case cv_pipeline E data of
             None \<Rightarrow> (None, emit [Preprocess None] st)
           | Some img \<Rightarrow>
               (Some img,
                emit [Preprocess (Some img)]
                  (if save_debug_output S
                   then st\<lparr>files := (files st)(preprocessed_path S \<mapsto> BitmapImage img)\<rparr>
                   else st))))"

text \<open>\<open>_recognize_captcha\<close>: the empty string when there is no reader or it raises.\<close>

definition recognize_captcha :: "'w env \<Rightarrow> solver \<Rightarrow> bitmap \<Rightarrow> pystr" where
  "recognize_captcha E S img =
     (case reader S of
        None \<Rightarrow> []
      | Some readtext \<Rightarrow>
          (case readtext img of
             None \<Rightarrow> []
           | Some results \<Rightarrow>
               fix_common_errors (unicode E)
                 (py_strip (unicode E) (py_upper (unicode E) (concat results)))))"

text \<open>
  \<open>_cleanup_files\<close>: when debugging is on and \<open>success\<close> holds, each of the three files
  of the given attempt is removed if it exists; a failing \<open>os.remove\<close> is logged only.
\<close>

definition remove_file :: "'w env \<Rightarrow> string \<Rightarrow> 'w state \<Rightarrow> 'w state" where
  "remove_file E p st =
     (if files st p = None then st
      else if os_remove E p then emit [Remove p True] (st\<lparr>files := (files st)(p := None)\<rparr>)
      else emit [Remove p False] st)"

definition cleanup_files :: "'w env \<Rightarrow> solver \<Rightarrow> int \<Rightarrow> bool \<Rightarrow> 'w state \<Rightarrow> 'w state" where
  "cleanup_files E S k success st =
     (if \<not> save_debug_output S then st
      else if success
      then fold (remove_file E)
             [temp_captcha_path S, preprocessed_path S, screenshot_path S k] st
      else st)"

text \<open>\<open>_try_different_image\<close>: every exception is swallowed.\<close>

definition try_different_image :: "'w env \<Rightarrow> 'w state \<Rightarrow> 'w state" where
  "try_different_image E st =
     (case click_try_different E (world st) of
        (clicked, w) \<Rightarrow>
          if clicked
          then emit [TryDifferentImage True, Sleep 1] (st\<lparr>world := sleep E 1 w\<rparr>)
          else emit [TryDifferentImage False] (st\<lparr>world := w\<rparr>))"

text \<open>
  The body of the loop of \<open>solve_captcha\<close>, in its stages. A stage that gives up the
  attempt yields \<open>None\<close> or \<open>False\<close>: the source then runs \<open>attempt += 1\<close> and
  \<open>continue\<close>, or its handler \<open>except Exception\<close>, which does the same.
\<close>

definition take_screenshot :: "'w env \<Rightarrow> solver \<Rightarrow> 'w state \<Rightarrow> bool \<times> 'w state" where
  "take_screenshot E S st =
     (if save_debug_output S
      then (case save_screenshot E (world st) of
              (taken, w) \<Rightarrow>
                (taken,
                 emit [Screenshot (screenshot_path S (attempt st)) taken]
                   (st\<lparr>world := w,
                      files := (if taken
                                then (files st)(screenshot_path S (attempt st) \<mapsto> ScreenshotImage)
                                else files st)\<rparr>)))
      else (True, st))"

text \<open>Download, screenshot, preprocessing and recognition.\<close>

definition read_captcha :: "'w env \<Rightarrow> solver \<Rightarrow> 'w state \<Rightarrow> pystr option \<times> 'w state" where
  "read_captcha E S st =
     (case download_captcha_image E S st of
        (None, st1) \<Rightarrow> (None, st1)
      | (Some r, st1) \<Rightarrow>
          (case take_screenshot E S st1 of
             (False, st2) \<Rightarrow> (None, st2)
           | (True, st2) \<Rightarrow>
               (case preprocess_image E S r st2 of
                  (None, st3) \<Rightarrow> (None, st3)
                | (Some img, st3) \<Rightarrow>
                    (Some (recognize_captcha E S img),
                     emit [Recognize (recognize_captcha E S img)] st3))))"

text \<open>Entering the text, clicking the button, \<open>time.sleep(3)\<close>.\<close>

definition submit_text :: "'w env \<Rightarrow> pystr \<Rightarrow> 'w state \<Rightarrow> bool \<times> 'w state" where
  "submit_text E text st =
     (case enter_text E text (world st) of
        (False, w) \<Rightarrow> (False, emit [EnterText text False] (st\<lparr>world := w\<rparr>))
      | (True, w) \<Rightarrow>
          (case click_continue E w of
             (False, w') \<Rightarrow>
               (False, emit [EnterText text True, ClickContinue False] (st\<lparr>world := w'\<rparr>))
           | (True, w') \<Rightarrow>
               (True, emit [EnterText text True, ClickContinue True, Sleep 3]
                        (st\<lparr>world := sleep E 3 w'\<rparr>))))"

datatype 'w step = Return bool "'w state" | Continue "'w state"

text \<open>
  The second query for the input field, after the submission. When the field is gone,
  \<open>AmazonCaptchaSolver\<close> removes the files of the attempt and returns \<open>True\<close>. In
  \<open>SeleniumCaptchaSolver\<close> the call \<open>self._cleanup_files(attempt, success=True)\<close> raises
  \<open>AttributeError\<close>, since the class has no such method; the exception leaves the
  handler it is raised in and reaches the handler \<open>except Exception\<close> of the loop body,
  which logs it and runs \<open>attempt += 1\<close>.
\<close>

definition verify_submission :: "'w env \<Rightarrow> solver \<Rightarrow> 'w state \<Rightarrow> 'w step" where
  "verify_submission E S st =
     (case find_captcha_input E (world st) of
        (True, w) \<Rightarrow>
          Continue (next_attempt (try_different_image E (emit [FindInput True] (st\<lparr>world := w\<rparr>))))
      | (False, w) \<Rightarrow>
          (case variant S of
             Amazon \<Rightarrow>
               Return True
                 (cleanup_files E S (attempt st) True
                    (emit [FindInput False, LogSolved] (st\<lparr>world := w\<rparr>)))
           | Selenium \<Rightarrow>
               Continue (next_attempt (emit [FindInput False, LogSolved] (st\<lparr>world := w\<rparr>)))))"

definition attempt_cycle :: "'w env \<Rightarrow> solver \<Rightarrow> 'w state \<Rightarrow> 'w step" where
  "attempt_cycle E S st =
     (case find_captcha_input E (world st) of
        (False, w) \<Rightarrow>
          Return True (emit [Cycle (attempt st), FindInput False, LogNoCaptcha] (st\<lparr>world := w\<rparr>))
      | (True, w) \<Rightarrow>
          (case read_captcha E S (emit [Cycle (attempt st), FindInput True] (st\<lparr>world := w\<rparr>)) of
             (None, st1) \<Rightarrow> Continue (next_attempt st1)
           | (Some text, st1) \<Rightarrow>
               if length text < 4
               then Continue (next_attempt (try_different_image E st1))
               else (case submit_text E text st1 of
                       (False, st2) \<Rightarrow> Continue (next_attempt st2)
                     | (True, st2) \<Rightarrow> verify_submission E S st2)))"

text \<open>No stage but \<open>attempt += 1\<close> touches the counter.\<close>

lemma attempt_emit [simp]: "attempt (emit evs st) = attempt st"
  by (simp add: emit_def)

lemma attempt_download: "download_captcha_image E S st = (r, st') \<Longrightarrow> attempt st' = attempt st"
  by (auto simp: download_captcha_image_def split: prod.splits option.splits if_splits)

lemma attempt_screenshot: "take_screenshot E S st = (b, st') \<Longrightarrow> attempt st' = attempt st"
  by (auto simp: take_screenshot_def split: prod.splits if_splits)

lemma attempt_preprocess: "preprocess_image E S r st = (x, st') \<Longrightarrow> attempt st' = attempt st"
  by (auto simp: preprocess_image_def split: option.splits if_splits)

lemma attempt_read:
  assumes "read_captcha E S st = (x, st')"
  shows "attempt st' = attempt st"
proof -
  obtain r st1 where d: "download_captcha_image E S st = (r, st1)"
    by (cases "download_captcha_image E S st") blast
  have a1: "attempt st1 = attempt st" using d by (rule attempt_download)
  show ?thesis
  proof (cases r)
    case None
    with assms d a1 show ?thesis by (simp add: read_captcha_def)
  next
    case (Some ref)
    obtain b st2 where s: "take_screenshot E S st1 = (b, st2)"
      by (cases "take_screenshot E S st1") blast
    have a2: "attempt st2 = attempt st1" using s by (rule attempt_screenshot)
    obtain y st3 where p: "preprocess_image E S ref st2 = (y, st3)"
      by (cases "preprocess_image E S ref st2") blast
    have a3: "attempt st3 = attempt st2" using p by (rule attempt_preprocess)
    from assms d Some s p a1 a2 a3 show ?thesis
      by (auto simp: read_captcha_def split: bool.splits option.splits)
  qed
qed

lemma attempt_submit: "submit_text E text st = (b, st') \<Longrightarrow> attempt st' = attempt st"
  by (auto simp: submit_text_def split: prod.splits bool.splits)

lemma attempt_try_different [simp]: "attempt (try_different_image E st) = attempt st"
  by (simp add: try_different_image_def split: prod.splits)

lemma attempt_verify:
  "verify_submission E S st = Continue st' \<Longrightarrow> attempt st' = attempt st + 1"
  by (auto simp: verify_submission_def next_attempt_def
      split: prod.splits bool.splits variant.splits)

lemma attempt_cycle_Continue:
  "attempt_cycle E S st = Continue st' \<Longrightarrow> attempt st' = attempt st + 1"
  by (auto simp: attempt_cycle_def next_attempt_def
      split: prod.splits option.splits bool.splits if_splits
      dest!: attempt_read attempt_submit attempt_verify)

text \<open>The loop \<open>while attempt < max_attempts\<close> and the line after it.\<close>

function solve_loop :: "'w env \<Rightarrow> solver \<Rightarrow> int \<Rightarrow> 'w state \<Rightarrow> bool \<times> 'w state" where
  "solve_loop E S max_attempts st =
     (if attempt st < max_attempts
      then (case attempt_cycle E S st of
              Return b st' \<Rightarrow> (b, st')
            | Continue st' \<Rightarrow> solve_loop E S max_attempts st')
      else (False, emit [LogGaveUp] st))"
  by pat_completeness auto
termination
  by (relation "measure (\<lambda>(E, S, m, st). nat (m - attempt st))")
     (auto dest: attempt_cycle_Continue)

declare solve_loop.simps [simp del]

definition solve_captcha :: "'w env \<Rightarrow> solver \<Rightarrow> int \<Rightarrow> 'w state \<Rightarrow> bool \<times> 'w state" where
  "solve_captcha E S max_attempts st =
     (case reader S of
        None \<Rightarrow> (False, emit [LogUnavailable] st)
      | Some readtext \<Rightarrow> solve_loop E S max_attempts (st\<lparr>attempt := 0\<rparr>))"


text \<open>One round of the polling loop: the input is still there, \<open>time.sleep(2)\<close>.\<close>

definition poll_round :: "'w env \<Rightarrow> 'w state \<Rightarrow> 'w state" where
  "poll_round E st =
     emit [FindInput True, Sleep 2]
       (st\<lparr>world := sleep E 2 (snd (find_captcha_input E (world st)))\<rparr>)"





subsection \<open>The solver for Playwright\<close>

text \<open>
  \<open>PlaywrightCaptchaSolver.solve_captcha\<close>. Its helper methods are those of the other
  two classes with the calls of Playwright in place of those of Selenium, so the stages
  \<open>read_captcha\<close> and \<open>try_different_image\<close> are shared: \<open>fetch_captcha_image\<close> is then
  the query for the image, \<open>get_attribute\<close> and \<open>requests.get\<close>; \<open>save_screenshot\<close> is
  \<open>page.screenshot(path=...)\<close>; \<open>click_try_different\<close> is \<open>page.get_by_text(...)\<close> and
  \<open>link.click()\<close>, and \<open>sleep E 1\<close> is \<open>page.wait_for_timeout(1000)\<close>. The loop body
  differs in three points: a query for the input field is \<open>page.query_selector\<close>, which
  returns \<open>None\<close> for a missing element and lets an exception reach the handler of the
  loop body; there is no \<open>time.sleep(3)\<close> after the click, which is made inside
  \<open>with page.expect_navigation(...)\<close>; and no file is removed anywhere.
\<close>

text \<open>
  \<open>input_field.click()\<close> and \<open>input_field.fill(text)\<close> (\<open>enter_text\<close>), then the block
  \<open>with page.expect_navigation(wait_until="networkidle")\<close> that clicks the button
  (\<open>click_continue\<close>; \<open>False\<close> when the block raises).
\<close>

definition playwright_submit :: "'w env \<Rightarrow> pystr \<Rightarrow> 'w state \<Rightarrow> bool \<times> 'w state" where
  "playwright_submit E text st =
     (case enter_text E text (world st) of
        (False, w) \<Rightarrow> (False, emit [EnterText text False] (st\<lparr>world := w\<rparr>))
      | (True, w) \<Rightarrow>
          (case click_continue E w of
             (clicked, w') \<Rightarrow>
               (clicked, emit [EnterText text True, ClickContinue clicked] (st\<lparr>world := w'\<rparr>))))"

definition playwright_verify :: "'w env \<Rightarrow> 'w state \<Rightarrow> 'w step" where
  "playwright_verify E st =
     (case query_captcha_input E (world st) of
        (None, w) \<Rightarrow> Continue (next_attempt (emit [QueryRaised] (st\<lparr>world := w\<rparr>)))
      | (Some True, w) \<Rightarrow>
          Continue (next_attempt (try_different_image E (emit [FindInput True] (st\<lparr>world := w\<rparr>))))
      | (Some False, w) \<Rightarrow>
          Return True (emit [FindInput False, LogSolved] (st\<lparr>world := w\<rparr>)))"

definition playwright_cycle :: "'w env \<Rightarrow> solver \<Rightarrow> 'w state \<Rightarrow> 'w step" where
  "playwright_cycle E S st =
     (case query_captcha_input E (world st) of
        (None, w) \<Rightarrow>
          Continue (next_attempt (emit [Cycle (attempt st), QueryRaised] (st\<lparr>world := w\<rparr>)))
      | (Some False, w) \<Rightarrow>
          Return True (emit [Cycle (attempt st), FindInput False, LogNoCaptcha] (st\<lparr>world := w\<rparr>))
      | (Some True, w) \<Rightarrow>
          (case read_captcha E S (emit [Cycle (attempt st), FindInput True] (st\<lparr>world := w\<rparr>)) of
             (None, st1) \<Rightarrow> Continue (next_attempt st1)
           | (Some text, st1) \<Rightarrow>
               if length text < 4
               then Continue (next_attempt (try_different_image E st1))
               else (case playwright_submit E text st1 of
                       (False, st2) \<Rightarrow> Continue (next_attempt st2)
                     | (True, st2) \<Rightarrow> playwright_verify E st2)))"

lemma attempt_playwright_submit:
  "playwright_submit E text st = (b, st') \<Longrightarrow> attempt st' = attempt st"
  by (auto simp: playwright_submit_def split: prod.splits bool.splits)

lemma attempt_playwright_verify:
  "playwright_verify E st = Continue st' \<Longrightarrow> attempt st' = attempt st + 1"
  by (auto simp: playwright_verify_def next_attempt_def
      split: prod.splits option.splits bool.splits)

lemma attempt_playwright_cycle:
  "playwright_cycle E S st = Continue st' \<Longrightarrow> attempt st' = attempt st + 1"
  by (auto simp: playwright_cycle_def next_attempt_def
      split: prod.splits option.splits bool.splits if_splits
      dest!: attempt_read attempt_playwright_submit attempt_playwright_verify)

function playwright_loop :: "'w env \<Rightarrow> solver \<Rightarrow> int \<Rightarrow> 'w state \<Rightarrow> bool \<times> 'w state" where
  "playwright_loop E S max_attempts st =
     (if attempt st < max_attempts
      then (case playwright_cycle E S st of
              Return b st' \<Rightarrow> (b, st')
            | Continue st' \<Rightarrow> playwright_loop E S max_attempts st')
      else (False, emit [LogGaveUp] st))"
  by pat_completeness auto
termination
  by (relation "measure (\<lambda>(E, S, m, st). nat (m - attempt st))")
     (auto dest: attempt_playwright_cycle)

declare playwright_loop.simps [simp del]

definition playwright_solve_captcha ::
  "'w env \<Rightarrow> solver \<Rightarrow> int \<Rightarrow> 'w state \<Rightarrow> bool \<times> 'w state" where
  "playwright_solve_captcha E S max_attempts st =
     (case reader S of
        None \<Rightarrow> (False, emit [LogUnavailable] st)
      | Some readtext \<Rightarrow> playwright_loop E S max_attempts (st\<lparr>attempt := 0\<rparr>))"

section \<open>Reading the log\<close>

text \<open>
  What the statements below read off a log: the values of \<open>attempt\<close> with which the
  loop body was entered, the texts that came out of the recognition step, the texts
  typed into the input field, the requests for a different image, and the files removed.
\<close>

primrec cycle_indices :: "event list \<Rightarrow> int list" where
  "cycle_indices [] = []"
| "cycle_indices (e # evs) =
     (case e of Cycle n \<Rightarrow> n # cycle_indices evs | _ \<Rightarrow> cycle_indices evs)"

primrec recognized :: "event list \<Rightarrow> pystr list" where
  "recognized [] = []"
| "recognized (e # evs) =
     (case e of Recognize t \<Rightarrow> t # recognized evs | _ \<Rightarrow> recognized evs)"

primrec entered :: "event list \<Rightarrow> pystr list" where
  "entered [] = []"
| "entered (e # evs) =
     (case e of EnterText t ok \<Rightarrow> t # entered evs | _ \<Rightarrow> entered evs)"

primrec fresh_requests :: "event list \<Rightarrow> bool list" where
  "fresh_requests [] = []"
| "fresh_requests (e # evs) =
     (case e of TryDifferentImage ok \<Rightarrow> ok # fresh_requests evs | _ \<Rightarrow> fresh_requests evs)"

primrec removed :: "event list \<Rightarrow> string list" where
  "removed [] = []"
| "removed (e # evs) =
     (case e of Remove p ok \<Rightarrow> p # removed evs | _ \<Rightarrow> removed evs)"

text \<open>
  \<open>emits st st' cs rs es fs\<close>: the log of \<open>st'\<close> is the log of \<open>st\<close> followed by
  events that enter the loop body with the counter values \<open>cs\<close>, recognise the texts
  \<open>rs\<close>, type the texts \<open>es\<close> and request a different image with the results \<open>fs\<close>.
\<close>

definition emits ::
  "'w state \<Rightarrow> 'w state \<Rightarrow> int list \<Rightarrow> pystr list \<Rightarrow> pystr list \<Rightarrow> bool list \<Rightarrow> bool" where
  "emits st st' cs rs es fs =
     (\<exists>evs. trace st' = trace st @ evs \<and> cycle_indices evs = cs \<and> recognized evs = rs \<and>
        entered evs = es \<and> fresh_requests evs = fs)"

text \<open>
  The files a log says were written: the names of the screenshots taken, the downloads
  and the bitmaps, each in the order of the log.
\<close>

primrec screenshots :: "event list \<Rightarrow> string list" where
  "screenshots [] = []"
| "screenshots (e # evs) =
     (case e of Screenshot p ok \<Rightarrow> (if ok then p # screenshots evs else screenshots evs)
      | _ \<Rightarrow> screenshots evs)"

primrec downloads :: "event list \<Rightarrow> bytes list" where
  "downloads [] = []"
| "downloads (e # evs) =
     (case e of Download d \<Rightarrow> (case d of Some data \<Rightarrow> data # downloads evs | None \<Rightarrow> downloads evs)
      | _ \<Rightarrow> downloads evs)"

primrec bitmaps :: "event list \<Rightarrow> bitmap list" where
  "bitmaps [] = []"
| "bitmaps (e # evs) =
     (case e of Preprocess b \<Rightarrow> (case b of Some img \<Rightarrow> img # bitmaps evs | None \<Rightarrow> bitmaps evs)
      | _ \<Rightarrow> bitmaps evs)"

text \<open>
  The writes of a log replayed on a disk, in the order of the log: with debugging on a
  download goes to \<open>temp_captcha.png\<close> and a bitmap to \<open>preprocessed_captcha.png\<close>, a
  later one in the place of an earlier one; a screenshot goes to the file it names.
\<close>

definition write_event :: "solver \<Rightarrow> event \<Rightarrow> (string \<rightharpoonup> content) \<Rightarrow> (string \<rightharpoonup> content)" where
  "write_event S e fs =
     (case e of
        Download d \<Rightarrow>
          (case d of
             Some data \<Rightarrow>
               if save_debug_output S then fs(temp_captcha_path S \<mapsto> RawImage data) else fs
           | None \<Rightarrow> fs)
      | Preprocess b \<Rightarrow>
          (case b of
             Some img \<Rightarrow>
               if save_debug_output S then fs(preprocessed_path S \<mapsto> BitmapImage img) else fs
           | None \<Rightarrow> fs)
      | Screenshot p ok \<Rightarrow> (if ok then fs(p \<mapsto> ScreenshotImage) else fs)
      | _ \<Rightarrow> fs)"

definition written :: "solver \<Rightarrow> event list \<Rightarrow> (string \<rightharpoonup> content) \<Rightarrow> (string \<rightharpoonup> content)" where
  "written S evs fs = fold (write_event S) evs fs"

text \<open>
  \<open>kept S st st'\<close>: between \<open>st\<close> and \<open>st'\<close> no \<open>os.remove\<close> was called, every screenshot
  has the name of an attempt, and the disk of \<open>st'\<close> is the disk of \<open>st\<close> with the writes
  of the log replayed.
\<close>

definition kept :: "solver \<Rightarrow> 'w state \<Rightarrow> 'w state \<Rightarrow> bool" where
  "kept S st st' =
     (\<exists>evs. trace st' = trace st @ evs \<and> removed evs = [] \<and>
        list_all (\<lambda>p. \<exists>k. p = screenshot_path S k) (screenshots evs) \<and>
        files st' = written S evs (files st))"

text \<open>
  \<open>left_on_disk S st st'\<close>, what a call that removes nothing leaves behind: no
  \<open>os.remove\<close> was called; the disk is the one before the call with the writes of the call
  replayed, so every file that was there is still there; every screenshot taken is
  there; and with debugging on \<open>temp_captcha.png\<close> holds the last download and
  \<open>preprocessed_captcha.png\<close> the last bitmap of the call.
\<close>

definition left_on_disk :: "solver \<Rightarrow> 'w state \<Rightarrow> 'w state \<Rightarrow> bool" where
  "left_on_disk S st st' =
     (\<exists>evs. trace st' = trace st @ evs \<and> removed evs = [] \<and>
        files st' = written S evs (files st) \<and>
        (\<forall>p. files st p \<noteq> None \<longrightarrow> files st' p \<noteq> None) \<and>
        (\<forall>p\<in>set (screenshots evs). files st' p = Some ScreenshotImage) \<and>
        (save_debug_output S \<and> downloads evs \<noteq> [] \<longrightarrow>
           files st' (temp_captcha_path S) = Some (RawImage (last (downloads evs)))) \<and>
        (save_debug_output S \<and> bitmaps evs \<noteq> [] \<longrightarrow>
           files st' (preprocessed_path S) = Some (BitmapImage (last (bitmaps evs)))))"


text \<open>The state a step of the loop ends in.\<close>

primrec state_of :: "'w step \<Rightarrow> 'w state" where
  "state_of (Return b st) = st"
| "state_of (Continue st) = st"

text \<open>A text without any of the characters 0, 1, 5, 8.\<close>

definition no_confusable :: "pystr \<Rightarrow> bool" where
  "no_confusable t = list_all (\<lambda>c. c \<noteq> 48 \<and> c \<noteq> 49 \<and> c \<noteq> 53 \<and> c \<noteq> 56) t"

section \<open>A concrete external surface\<close>

text \<open>
  A page for the closed examples: it shows a captcha until a submission is accepted, and
  it rejects the first \<open>rejections\<close> submissions. Every call succeeds, the image is three
  bytes, the pipeline wraps them, \<open>time.sleep(n)\<close> advances the clock by \<open>n\<close>.
\<close>

record page =
  captcha_shown :: bool
  rejections :: nat
  now :: real

definition demo_env :: "page env" where
  "demo_env =
     \<lparr> find_captcha_input = (\<lambda>w. (captcha_shown w, w)),
       query_captcha_input = (\<lambda>w. (Some (captcha_shown w), w)),
       fetch_captcha_image = (\<lambda>w. (Some [1, 2, 3], w)),
       save_screenshot = (\<lambda>w. (True, w)),
       enter_text = (\<lambda>t w. (True, w)),
       click_continue =
         (\<lambda>w. (True, if rejections w = 0 then w\<lparr>captcha_shown := False\<rparr>
                      else w\<lparr>rejections := rejections w - 1\<rparr>)),
       click_try_different = (\<lambda>w. (True, w)),
       sleep = (\<lambda>n w. w\<lparr>now := now w + real n\<rparr>),
       clock = now,
       float_sub = (\<lambda>a b. a - b),
       cv_pipeline = (\<lambda>data. Some [data]),
       os_remove = (\<lambda>p. True),
       unicode = ucd_excerpt \<rparr>"

text \<open>
  Two more pages: one whose image is new at every rejected submission, and one whose
  captcha goes away by itself 119 time units after the start.
\<close>

definition fresh_env :: "page env" where
  "fresh_env = demo_env\<lparr>fetch_captcha_image := (\<lambda>w. (Some [rejections w], w))\<rparr>"


definition demo_page :: "bool \<Rightarrow> nat \<Rightarrow> page" where
  "demo_page shown n = \<lparr> captcha_shown = shown, rejections = n, now = 0 \<rparr>"

text \<open>A solver whose engine reads the same fragment from every image.\<close>

definition demo_solver :: "bool \<Rightarrow> string \<Rightarrow> solver" where
  "demo_solver dbg fragment =
     init_solver Amazon ''captcha_failures'' dbg (Some (\<lambda>img. Some [lit fragment]))"

definition demo_state :: "'w \<Rightarrow> 'w state" where
  "demo_state w = \<lparr> world = w, files = Map.empty, attempt = 0, trace = [] \<rparr>"

text \<open>
  The states of the examples: a page that shows a captcha and accepts the first
  submission, and the state after the first pass through download, screenshot,
  preprocessing and recognition.
\<close>

definition demo_st0 :: "page state" where
  "demo_st0 = demo_state (demo_page True 0)"

definition demo_st1 :: "string \<Rightarrow> page state" where
  "demo_st1 fragment =
     snd (read_captcha demo_env (demo_solver False fragment)
            (emit [Cycle (attempt demo_st0), FindInput True]
               (demo_st0\<lparr>world := snd (find_captcha_input demo_env (world demo_st0))\<rparr>)))"

text \<open>The state after recognition and the state after the submission when debugging is on.\<close>

definition demo_dbg1 :: "page state" where
  "demo_dbg1 =
     snd (read_captcha demo_env (demo_solver True ''ABCD'')
            (emit [Cycle (attempt demo_st0), FindInput True]
               (demo_st0\<lparr>world := snd (find_captcha_input demo_env (world demo_st0))\<rparr>)))"

definition demo_dbg2 :: "page state" where
  "demo_dbg2 = snd (submit_text demo_env (lit ''ABCD'') demo_dbg1)"

text \<open>A run of three attempts on a page that rejects five submissions.\<close>

definition demo_run :: "bool \<times> page state" where
  "demo_run =
     solve_captcha demo_env (demo_solver False ''ABCD'') 3 (demo_state (demo_page True 5))"

section \<open>Properties of the error corrector\<close>

lemmas ascii_defs = is_ascii_def ascii_digit_def ascii_upper_def ascii_lower_def

lemmas corrector_defs =
  fix_common_errors_def replacements_def py_replace_def py_upper_def upper_cp_def
  py_isalnum_def ascii_defs

lemma fix_unfold:
  "fix_common_errors U text =
     py_replace 56 66 (py_replace 53 83 (py_replace 49 73 (py_replace 48 79
       (py_upper U (filter (py_isalnum U) text)))))"
  by (simp add: fix_common_errors_def replacements_def)

lemma replace_chain:
  "py_replace 56 66 (py_replace 53 83 (py_replace 49 73 (py_replace 48 79 t))) = map subst_cp t"
  by (induction t) (simp_all add: py_replace_def subst_cp_def)

lemma fix_map: "fix_common_errors U text = map subst_cp (py_upper U (filter (py_isalnum U) text))"
  by (simp only: fix_unfold replace_chain)

lemma fix_Nil: "fix_common_errors U [] = []"
  by (simp add: fix_map py_upper_def)

lemma fix_Cons:
  "fix_common_errors U (c # s) =
     (if py_isalnum U c then map subst_cp (upper_cp U c) @ fix_common_errors U s
      else fix_common_errors U s)"
  by (simp add: fix_map py_upper_def)

lemma subst_cp_no_digit: "subst_cp c \<noteq> 48 \<and> subst_cp c \<noteq> 49 \<and> subst_cp c \<noteq> 53 \<and> subst_cp c \<noteq> 56"
  by (simp add: subst_cp_def)

lemma fix_no_confusable:
  "c \<in> set (fix_common_errors U s) \<Longrightarrow> c \<noteq> 48 \<and> c \<noteq> 49 \<and> c \<noteq> 53 \<and> c \<noteq> 56"
  using subst_cp_no_digit by (auto simp: fix_map)

lemma ascii_alnum_corrected:
  assumes "is_ascii c" and "py_isalnum U c"
  shows "\<exists>d. upper_cp U c = [d] \<and> corrected_cp (subst_cp d)"
proof (cases "ascii_lower c")
  case True
  then have "ascii_upper (c - 32)" unfolding ascii_defs by arith
  then have "corrected_cp (subst_cp (c - 32))"
    by (simp add: corrected_cp_def subst_cp_def ascii_defs)
  with True assms(1) show ?thesis by (simp add: upper_cp_def)
next
  case False
  with assms have "ascii_digit c \<or> ascii_upper c" by (simp add: py_isalnum_def)
  then have "corrected_cp (subst_cp c)"
    by (auto simp: corrected_cp_def subst_cp_def ascii_defs)
  with False assms(1) show ?thesis by (simp add: upper_cp_def)
qed

lemma fix_ascii_corrected:
  "list_all is_ascii s \<Longrightarrow> list_all corrected_cp (fix_common_errors U s)"
proof (induction s)
  case Nil
  show ?case by (simp add: fix_Nil)
next
  case (Cons c s)
  then have asc: "is_ascii c" and rest: "list_all corrected_cp (fix_common_errors U s)"
    by simp_all
  show ?case
  proof (cases "py_isalnum U c")
    case True
    from ascii_alnum_corrected [OF asc True] obtain d
      where "upper_cp U c = [d]" and "corrected_cp (subst_cp d)" by blast
    with True rest show ?thesis by (simp add: fix_Cons)
  next
    case False
    with rest show ?thesis by (simp add: fix_Cons)
  qed
qed

lemma corrected_cp_stable:
  assumes "corrected_cp d"
  shows "py_isalnum U d" and "upper_cp U d = [d]" and "subst_cp d = d"
  using assms by (auto simp: corrected_cp_def py_isalnum_def upper_cp_def subst_cp_def ascii_defs)

lemma fix_fixed: "list_all corrected_cp t \<Longrightarrow> fix_common_errors U t = t"
  by (induction t) (simp_all add: fix_Nil fix_Cons corrected_cp_stable)

lemma fix_ascii_length:
  "list_all is_ascii s \<Longrightarrow> length (fix_common_errors U s) = length (filter (py_isalnum U) s)"
proof (induction s)
  case Nil
  show ?case by (simp add: fix_Nil)
next
  case (Cons c s)
  then have asc: "is_ascii c" by simp
  show ?case
  proof (cases "py_isalnum U c")
    case True
    from ascii_alnum_corrected [OF asc True] obtain d where "upper_cp U c = [d]" by blast
    with True Cons show ?thesis by (simp add: fix_Cons)
  next
    case False
    with Cons show ?thesis by (simp add: fix_Cons)
  qed
qed






text \<open>
  Two kinds of strings in which every alphanumeric character has an upper case made of
  alphanumeric characters that are their own upper case: the strings of ASCII
  characters, and the strings of characters that are their own upper case.
\<close>

lemma ascii_or_upper_cased_settles:
  assumes "list_all (\<lambda>c. is_ascii c \<or> upper_cp U c = [c]) s"
  shows "list_all (\<lambda>c. py_isalnum U c \<longrightarrow>
           list_all (\<lambda>d. py_isalnum U d \<and> upper_cp U d = [d]) (upper_cp U c)) s"
proof -
  have "list_all (\<lambda>d. py_isalnum U d \<and> upper_cp U d = [d]) (upper_cp U c)"
    if "is_ascii c \<or> upper_cp U c = [c]" and alnum: "py_isalnum U c" for c
  proof (cases "upper_cp U c = [c]")
    case True
    with alnum show ?thesis by simp
  next
    case False
    with that(1) have asc: "is_ascii c" by simp
    from ascii_alnum_corrected [OF asc alnum] obtain d
      where d: "upper_cp U c = [d]" and "corrected_cp (subst_cp d)" by blast
    from asc alnum d have "ascii_upper d \<or> ascii_digit d"
      unfolding upper_cp_def py_isalnum_def ascii_defs by (auto split: if_splits)
    then have "py_isalnum U d \<and> upper_cp U d = [d]"
      unfolding upper_cp_def py_isalnum_def ascii_defs by auto
    with d show ?thesis by simp
  qed
  with assms show ?thesis by (auto simp: list_all_iff)
qed




text \<open>
  Claim C6. The worked examples of the spec: \<open>correct("A B-C1")\<close> and
  \<open>correct("ABC1")\<close> are both \<open>"ABCI"\<close>, \<open>correct("0851")\<close> is \<open>"OBSI"\<close>; the
  corrector is the four replacements in table order 0 to O, 1 to I, 5 to S, 8 to B, each
  over the whole string, after the filter and the upper-casing; and on each example, as
  for every string once its characters beyond ASCII are left out, the length of the
  output is the number of alphanumeric characters of the input.
\<close>

theorem fix_common_errors_examples:
  "fix_common_errors U (lit ''A B-C1'') = lit ''ABCI'' \<and>
   fix_common_errors U (lit ''ABC1'') = lit ''ABCI'' \<and>
   fix_common_errors U (lit ''0851'') = lit ''OBSI'' \<and>
   fix_common_errors U text =
     py_replace (of_char CHR ''8'') (of_char CHR ''B'')
       (py_replace (of_char CHR ''5'') (of_char CHR ''S'')
         (py_replace (of_char CHR ''1'') (of_char CHR ''I'')
           (py_replace (of_char CHR ''0'') (of_char CHR ''O'')
             (py_upper U (filter (py_isalnum U) text))))) \<and>
   length (fix_common_errors U (lit ''A B-C1'')) = length (filter (py_isalnum U) (lit ''A B-C1'')) \<and>
   length (fix_common_errors U (lit ''ABC1'')) = length (filter (py_isalnum U) (lit ''ABC1'')) \<and>
   length (fix_common_errors U (lit ''0851'')) = length (filter (py_isalnum U) (lit ''0851'')) \<and>
   length (fix_common_errors U (filter is_ascii s))
     = length (filter (py_isalnum U) (filter is_ascii s))"
proof -
  have "list_all is_ascii (filter is_ascii s)" by (simp add: list_all_iff)
  then have "length (fix_common_errors U (filter is_ascii s))
     = length (filter (py_isalnum U) (filter is_ascii s))"
    by (rule fix_ascii_length)
  moreover have "fix_common_errors U (lit ''A B-C1'') = lit ''ABCI'' \<and>
   fix_common_errors U (lit ''ABC1'') = lit ''ABCI'' \<and>
   fix_common_errors U (lit ''0851'') = lit ''OBSI'' \<and>
   fix_common_errors U text =
     py_replace (of_char CHR ''8'') (of_char CHR ''B'')
       (py_replace (of_char CHR ''5'') (of_char CHR ''S'')
         (py_replace (of_char CHR ''1'') (of_char CHR ''I'')
           (py_replace (of_char CHR ''0'') (of_char CHR ''O'')
             (py_upper U (filter (py_isalnum U) text))))) \<and>
   length (fix_common_errors U (lit ''A B-C1'')) = length (filter (py_isalnum U) (lit ''A B-C1'')) \<and>
   length (fix_common_errors U (lit ''ABC1'')) = length (filter (py_isalnum U) (lit ''ABC1'')) \<and>
   length (fix_common_errors U (lit ''0851'')) = length (filter (py_isalnum U) (lit ''0851''))"
    by (simp add: corrector_defs lit_def)
  ultimately show ?thesis by blast
qed

section \<open>Properties of the solver\<close>

subsection \<open>The log of each stage\<close>

lemma cycle_indices_append [simp]: "cycle_indices (a @ b) = cycle_indices a @ cycle_indices b"
  by (induction a) (simp_all split: event.splits)

lemma recognized_append [simp]: "recognized (a @ b) = recognized a @ recognized b"
  by (induction a) (simp_all split: event.splits)

lemma entered_append [simp]: "entered (a @ b) = entered a @ entered b"
  by (induction a) (simp_all split: event.splits)

lemma fresh_requests_append [simp]: "fresh_requests (a @ b) = fresh_requests a @ fresh_requests b"
  by (induction a) (simp_all split: event.splits)

lemma removed_append [simp]: "removed (a @ b) = removed a @ removed b"
  by (induction a) (simp_all split: event.splits)

lemma emit_simps [simp]:
  "trace (emit evs st) = trace st @ evs"
  "world (emit evs st) = world st"
  "files (emit evs st) = files st"
  by (simp_all add: emit_def)

lemma next_attempt_simps [simp]:
  "trace (next_attempt st) = trace st"
  "world (next_attempt st) = world st"
  "files (next_attempt st) = files st"
  "attempt (next_attempt st) = attempt st + 1"
  by (simp_all add: next_attempt_def)

lemma emitsI:
  "trace st' = trace st @ evs \<Longrightarrow> cycle_indices evs = cs \<Longrightarrow> recognized evs = rs \<Longrightarrow>
   entered evs = es \<Longrightarrow> fresh_requests evs = fs \<Longrightarrow> emits st st' cs rs es fs"
  by (auto simp: emits_def)

lemma emitsD:
  assumes "emits st st' cs rs es fs"
  shows "cycle_indices (trace st') = cycle_indices (trace st) @ cs"
    and "recognized (trace st') = recognized (trace st) @ rs"
    and "entered (trace st') = entered (trace st) @ es"
    and "fresh_requests (trace st') = fresh_requests (trace st) @ fs"
  using assms by (auto simp: emits_def)

lemma emits_refl: "emits st st [] [] [] []"
  by (rule emitsI [of _ _ "[]"]) simp_all

lemma emits_trans:
  assumes "emits a b c1 r1 e1 f1" and "emits b c c2 r2 e2 f2"
  shows "emits a c (c1 @ c2) (r1 @ r2) (e1 @ e2) (f1 @ f2)"
proof -
  from assms(1) obtain x where x: "trace b = trace a @ x" "cycle_indices x = c1"
    "recognized x = r1" "entered x = e1" "fresh_requests x = f1"
    by (auto simp: emits_def)
  from assms(2) obtain y where y: "trace c = trace b @ y" "cycle_indices y = c2"
    "recognized y = r2" "entered y = e2" "fresh_requests y = f2"
    by (auto simp: emits_def)
  show ?thesis
    by (rule emitsI [of _ _ "x @ y"]) (simp_all add: x y)
qed

lemma emits_emit:
  assumes "emits a b cs rs es fs"
  shows "emits a (emit evs b) (cs @ cycle_indices evs) (rs @ recognized evs)
           (es @ entered evs) (fs @ fresh_requests evs)"
proof -
  have "emits b (emit evs b) (cycle_indices evs) (recognized evs) (entered evs) (fresh_requests evs)"
    by (rule emitsI [of _ _ evs]) simp_all
  with assms show ?thesis by (rule emits_trans)
qed

lemma emits_world [simp]: "emits a (b\<lparr>world := w\<rparr>) cs rs es fs = emits a b cs rs es fs"
  by (simp add: emits_def)

lemma emits_next_attempt [simp]: "emits a (next_attempt b) cs rs es fs = emits a b cs rs es fs"
  by (simp add: emits_def)

lemma emits_quiet:
  assumes "emits a b cs rs es fs" and "emits b c [] [] [] []"
  shows "emits a c cs rs es fs"
  using emits_trans [OF assms] by simp

lemma download_emits:
  "download_captcha_image E S st = (r, st') \<Longrightarrow> emits st st' [] [] [] []"
  by (auto simp: download_captcha_image_def emits_def emit_def
      split: prod.splits option.splits if_splits)

lemma screenshot_emits: "take_screenshot E S st = (b, st') \<Longrightarrow> emits st st' [] [] [] []"
  by (auto simp: take_screenshot_def emits_def emit_def split: prod.splits if_splits)

lemma preprocess_emits: "preprocess_image E S r st = (x, st') \<Longrightarrow> emits st st' [] [] [] []"
  by (auto simp: preprocess_image_def emits_def emit_def split: option.splits if_splits)

lemma recognize_no_confusable: "no_confusable (recognize_captcha E S img)"
  by (auto simp: recognize_captcha_def no_confusable_def list_all_iff
      split: option.splits dest: fix_no_confusable)

lemma read_emits:
  assumes "read_captcha E S st = (x, st')"
  shows "emits st st' [] (case x of None \<Rightarrow> [] | Some t \<Rightarrow> [t]) [] [] \<and>
         (case x of None \<Rightarrow> True | Some t \<Rightarrow> no_confusable t)"
proof -
  obtain r st1 where d: "download_captcha_image E S st = (r, st1)"
    by (cases "download_captcha_image E S st") blast
  have e1: "emits st st1 [] [] [] []" using d by (rule download_emits)
  show ?thesis
  proof (cases r)
    case None
    with assms d have "x = None" "st' = st1" by (simp_all add: read_captcha_def)
    with e1 show ?thesis by simp
  next
    case (Some ref)
    obtain b st2 where s: "take_screenshot E S st1 = (b, st2)"
      by (cases "take_screenshot E S st1") blast
    have e2: "emits st st2 [] [] [] []"
      by (rule emits_quiet [OF e1 screenshot_emits [OF s]])
    show ?thesis
    proof (cases b)
      case False
      with assms d Some s have "x = None" "st' = st2" by (simp_all add: read_captcha_def)
      with e2 show ?thesis by simp
    next
      case True
      obtain y st3 where p: "preprocess_image E S ref st2 = (y, st3)"
        by (cases "preprocess_image E S ref st2") blast
      have e3: "emits st st3 [] [] [] []"
        by (rule emits_quiet [OF e2 preprocess_emits [OF p]])
      show ?thesis
      proof (cases y)
        case None
        with assms d Some s True p have "x = None" "st' = st3"
          by (simp_all add: read_captcha_def)
        with e3 show ?thesis by simp
      next
        case (Some img)
        with assms d \<open>r = Some ref\<close> s True p
        have x: "x = Some (recognize_captcha E S img)"
          and st': "st' = emit [Recognize (recognize_captcha E S img)] st3"
          by (simp_all add: read_captcha_def)
        from emits_emit [OF e3, of "[Recognize (recognize_captcha E S img)]"]
        have "emits st st' [] [recognize_captcha E S img] [] []" by (simp add: st')
        with x recognize_no_confusable [of E S img] show ?thesis by simp
      qed
    qed
  qed
qed

lemma submit_emits: "submit_text E t st = (b, st') \<Longrightarrow> emits st st' [] [] [t] []"
  by (auto simp: submit_text_def emits_def emit_def split: prod.splits bool.splits)

lemma try_different_trace:
  "trace (try_different_image E st) = trace st @ [TryDifferentImage True, Sleep 1] \<or>
   trace (try_different_image E st) = trace st @ [TryDifferentImage False]"
  by (simp add: try_different_image_def split: prod.splits)

lemma try_different_emits:
  assumes "emits a b cs rs es fs"
  shows "emits a (try_different_image E b) cs rs es (fs @ [True]) \<or>
         emits a (try_different_image E b) cs rs es (fs @ [False])"
proof -
  from try_different_trace [of E b]
  have "emits b (try_different_image E b) [] [] [] [True] \<or>
        emits b (try_different_image E b) [] [] [] [False]"
    by (auto simp: emits_def)
  then show ?thesis using emits_trans [OF assms] by fastforce
qed

lemma remove_file_simps [simp]:
  "attempt (remove_file E p st) = attempt st"
  "world (remove_file E p st) = world st"
  by (simp_all add: remove_file_def)

lemma remove_emits:
  "emits a b cs rs es fs \<Longrightarrow> emits a (remove_file E p b) cs rs es fs"
  by (auto simp: remove_file_def emits_def emit_def)

lemma cleanup_simps [simp]:
  "attempt (cleanup_files E S k ok st) = attempt st"
  "world (cleanup_files E S k ok st) = world st"
  by (simp_all add: cleanup_files_def)

lemma cleanup_emits:
  "emits a b cs rs es fs \<Longrightarrow> emits a (cleanup_files E S k ok b) cs rs es fs"
  by (simp add: cleanup_files_def remove_emits)

lemma verify_Return:
  "verify_submission E S st = Return b st' \<Longrightarrow> b \<and> attempt st' = attempt st"
  by (auto simp: verify_submission_def split: prod.splits bool.splits variant.splits)

lemma verify_emits:
  assumes "emits a st cs rs es fs"
  shows "\<exists>fs'. emits a (state_of (verify_submission E S st)) cs rs es fs'"
proof -
  obtain b w where f: "find_captcha_input E (world st) = (b, w)"
    by (cases "find_captcha_input E (world st)") blast
  show ?thesis
  proof (cases b)
    case True
    from emits_emit [OF assms, of "[FindInput True]"]
    have "emits a (emit [FindInput True] (st\<lparr>world := w\<rparr>)) cs rs es fs"
      by (simp add: emits_def)
    from try_different_emits [OF this, of E] f True show ?thesis
      by (auto simp: verify_submission_def)
  next
    case False
    from emits_emit [OF assms, of "[FindInput False, LogSolved]"]
    have "emits a (emit [FindInput False, LogSolved] (st\<lparr>world := w\<rparr>)) cs rs es fs"
      by (simp add: emits_def)
    then have "emits a (state_of (verify_submission E S st)) cs rs es fs"
      using f False by (simp add: verify_submission_def cleanup_emits split: variant.splits)
    then show ?thesis ..
  qed
qed

lemma cycle_Return:
  "attempt_cycle E S st = Return b st' \<Longrightarrow> b \<and> attempt st' = attempt st"
  by (auto simp: attempt_cycle_def split: prod.splits option.splits bool.splits if_splits
      dest!: attempt_read attempt_submit verify_Return)

text \<open>
  One pass through the loop body: it is entered once, recognises at most one text, and
  types only texts of four or more characters without 0, 1, 5 and 8.
\<close>

lemma cycle_emits:
  "\<exists>rs es fs. emits st (state_of (attempt_cycle E S st)) [attempt st] rs es fs \<and>
     length rs \<le> 1 \<and> list_all (\<lambda>t. 4 \<le> length t \<and> no_confusable t) es"
proof -
  obtain b w where f: "find_captcha_input E (world st) = (b, w)"
    by (cases "find_captcha_input E (world st)") blast
  show ?thesis
  proof (cases b)
    case False
    from emits_emit [OF emits_refl [of st], of "[Cycle (attempt st), FindInput False, LogNoCaptcha]"]
    have "emits st (state_of (attempt_cycle E S st)) [attempt st] [] [] []"
      using f False by (simp add: attempt_cycle_def emits_def)
    then show ?thesis by fastforce
  next
    case True
    define st0 where "st0 = emit [Cycle (attempt st), FindInput True] (st\<lparr>world := w\<rparr>)"
    from emits_emit [OF emits_refl [of st], of "[Cycle (attempt st), FindInput True]"]
    have e0: "emits st st0 [attempt st] [] [] []"
      by (simp add: st0_def emits_def)
    obtain x st1 where r: "read_captcha E S st0 = (x, st1)"
      by (cases "read_captcha E S st0") blast
    note re = read_emits [OF r]
    show ?thesis
    proof (cases x)
      case None
      with re e0 have "emits st st1 [attempt st] [] [] []"
        using emits_trans [OF e0, of st1 "[]" "[]" "[]" "[]"] by simp
      moreover have "state_of (attempt_cycle E S st) = next_attempt st1"
        using f True r None by (simp add: attempt_cycle_def st0_def)
      ultimately have "emits st (state_of (attempt_cycle E S st)) [attempt st] [] [] []"
        by simp
      then show ?thesis by fastforce
    next
      case (Some t)
      with re have e1: "emits st0 st1 [] [t] [] []" and nc: "no_confusable t" by simp_all
      have e01: "emits st st1 [attempt st] [t] [] []"
        using emits_trans [OF e0 e1] by simp
      show ?thesis
      proof (cases "length t < 4")
        case True
        have sv: "state_of (attempt_cycle E S st) = next_attempt (try_different_image E st1)"
          using f \<open>b\<close> r Some True by (simp add: attempt_cycle_def st0_def)
        from try_different_emits [OF e01, of E]
        have "\<exists>fs. emits st (state_of (attempt_cycle E S st)) [attempt st] [t] [] fs"
          by (auto simp: sv)
        then show ?thesis by fastforce
      next
        case False
        obtain sb st2 where sub: "submit_text E t st1 = (sb, st2)"
          by (cases "submit_text E t st1") blast
        have e02: "emits st st2 [attempt st] [t] [t] []"
          using emits_trans [OF e01 submit_emits [OF sub]] by simp
        have ok: "list_all (\<lambda>t. 4 \<le> length t \<and> no_confusable t) [t]"
          using False nc by simp
        show ?thesis
        proof (cases sb)
          case False
          have "state_of (attempt_cycle E S st) = next_attempt st2"
            using f \<open>b\<close> r Some \<open>\<not> length t < 4\<close> sub False
            by (simp add: attempt_cycle_def st0_def)
          with e02 have "emits st (state_of (attempt_cycle E S st)) [attempt st] [t] [t] []"
            by simp
          with ok show ?thesis by fastforce
        next
          case True
          have "state_of (attempt_cycle E S st) = state_of (verify_submission E S st2)"
            using f \<open>b\<close> r Some \<open>\<not> length t < 4\<close> sub True
            by (simp add: attempt_cycle_def st0_def)
          with verify_emits [OF e02, of E S]
          have "\<exists>fs. emits st (state_of (attempt_cycle E S st)) [attempt st] [t] [t] fs"
            by simp
          with ok show ?thesis by fastforce
        qed
      qed
    qed
  qed
qed

subsection \<open>The loop\<close>

lemma solve_loop_unfold:
  "solve_loop E S m st =
     (if attempt st < m
      then (case attempt_cycle E S st of
              Return b st' \<Rightarrow> (b, st')
            | Continue st' \<Rightarrow> solve_loop E S m st')
      else (False, emit [LogGaveUp] st))"
  by (rule solve_loop.simps)

text \<open>An invariant of the loop gives a property of its result.\<close>

lemma solve_loop_rule:
  assumes inv: "I st"
    and cont: "\<And>s s'. I s \<Longrightarrow> attempt s < m \<Longrightarrow> attempt_cycle E S s = Continue s' \<Longrightarrow> I s'"
    and ret: "\<And>s b s'. I s \<Longrightarrow> attempt s < m \<Longrightarrow> attempt_cycle E S s = Return b s' \<Longrightarrow> R b s'"
    and exit: "\<And>s. I s \<Longrightarrow> \<not> attempt s < m \<Longrightarrow> R False (emit [LogGaveUp] s)"
  shows "R (fst (solve_loop E S m st)) (snd (solve_loop E S m st))"
  using inv
proof (induction "nat (m - attempt st)" arbitrary: st rule: less_induct)
  case less
  show ?case
  proof (cases "attempt st < m")
    case False
    then have "solve_loop E S m st = (False, emit [LogGaveUp] st)"
      by (simp add: solve_loop_unfold [of E S m st])
    with exit [OF less.prems False] show ?thesis by simp
  next
    case True
    show ?thesis
    proof (cases "attempt_cycle E S st")
      case (Return b s')
      with True have "solve_loop E S m st = (b, s')"
        by (simp add: solve_loop_unfold [of E S m st])
      with ret [OF less.prems True Return] show ?thesis by simp
    next
      case (Continue s')
      with True have eq: "solve_loop E S m st = solve_loop E S m s'"
        by (simp add: solve_loop_unfold [of E S m st])
      have "attempt s' = attempt st + 1" using Continue by (rule attempt_cycle_Continue)
      with True have "nat (m - attempt s') < nat (m - attempt st)" by simp
      from less.hyps [OF this cont [OF less.prems True Continue]] eq
      show ?thesis by simp
    qed
  qed
qed

lemma cycle_step:
  assumes "attempt_cycle E S s = r"
  shows "\<exists>rs es fs. emits s (state_of r) [attempt s] rs es fs \<and> length rs \<le> 1 \<and>
           list_all (\<lambda>t. 4 \<le> length t \<and> no_confusable t) es"
  using cycle_emits [of s E S] assms by simp

text \<open>Every text typed during a run has four or more characters, none of them 0, 1, 5, 8.\<close>

lemma solve_loop_entered:
  "\<exists>new. entered (trace (snd (solve_loop E S m st))) = entered (trace st) @ new \<and>
     list_all (\<lambda>t. 4 \<le> length t \<and> no_confusable t) new"
proof -
  define P where "P = (\<lambda>s::'a state. \<exists>new. entered (trace s) = entered (trace st) @ new \<and>
     list_all (\<lambda>t. 4 \<le> length t \<and> no_confusable t) new)"
  have step: "P (state_of r)" if "P s" and "attempt_cycle E S s = r" for s r
  proof -
    from cycle_step [OF that(2)] obtain rs es fs
      where e: "emits s (state_of r) [attempt s] rs es fs"
        and ok: "list_all (\<lambda>t. 4 \<le> length t \<and> no_confusable t) es" by blast
    from that(1) obtain new where n: "entered (trace s) = entered (trace st) @ new"
      "list_all (\<lambda>t. 4 \<le> length t \<and> no_confusable t) new" by (auto simp: P_def)
    have "entered (trace (state_of r)) = entered (trace st) @ (new @ es)"
      using emitsD(3) [OF e] n(1) by simp
    moreover have "list_all (\<lambda>t. 4 \<le> length t \<and> no_confusable t) (new @ es)"
      using n(2) ok by simp
    ultimately show ?thesis unfolding P_def by blast
  qed
  have "(\<lambda>b s. P s) (fst (solve_loop E S m st)) (snd (solve_loop E S m st))"
  proof (rule solve_loop_rule [where I = P])
    show "P st" by (simp add: P_def)
  next
    fix s s' assume "P s" "attempt_cycle E S s = Continue s'"
    from step [OF this] show "P s'" by simp
  next
    fix s b s' assume "P s" "attempt_cycle E S s = Return b s'"
    from step [OF this] show "P s'" by simp
  next
    fix s assume "P s"
    then show "P (emit [LogGaveUp] s)" by (auto simp: P_def)
  qed
  then show ?thesis by (simp add: P_def)
qed

lemma solve_captcha_entered:
  "\<exists>new. entered (trace (snd (solve_captcha E S m st))) = entered (trace st) @ new \<and>
     list_all (\<lambda>t. 4 \<le> length t \<and> no_confusable t) new"
proof (cases "reader S")
  case None
  then show ?thesis by (simp add: solve_captcha_def)
next
  case (Some rt)
  with solve_loop_entered [of E S m "st\<lparr>attempt := 0\<rparr>"] show ?thesis
    by (simp add: solve_captcha_def)
qed

subsection \<open>The claims about the attempt loop\<close>

text \<open>
  Claim C4. When the initialisation of the recognition engine failed, so that the
  constructor left \<open>self.reader = None\<close>, every call of \<open>solve_captcha\<close> returns
  \<open>False\<close> at once, whatever \<open>max_attempts\<close> is: the external surface is not touched
  (the world is the one before the call), no file is written, and the only event is the
  line "EasyOCR not available" in the log: no query, no download, no recognition.
\<close>

theorem engine_unavailable_short_circuit:
  "fst (solve_captcha E (init_solver v dir dbg None) max_attempts st) = False \<and>
   world (snd (solve_captcha E (init_solver v dir dbg None) max_attempts st)) = world st \<and>
   files (snd (solve_captcha E (init_solver v dir dbg None) max_attempts st)) = files st \<and>
   trace (snd (solve_captcha E (init_solver v dir dbg None) max_attempts st))
     = trace st @ [LogUnavailable]"
  by (simp add: solve_captcha_def init_solver_def)

text \<open>
  Claim C7. When the engine is available, \<open>max_attempts\<close> is positive and the first
  query finds no challenge input, \<open>solve_captcha\<close> returns \<open>True\<close>; the attempt counter
  is still zero, and the log of the call is the entry into the loop, the one query and
  the line "No captcha detected": no download was made.
\<close>

theorem no_captcha_reports_solved:
  assumes "reader S = Some readtext"
    and "0 < max_attempts"
    and "\<not> fst (find_captcha_input E (world st))"
  shows "solve_captcha E S max_attempts st =
           (True, emit [Cycle 0, FindInput False, LogNoCaptcha]
                    (st\<lparr>attempt := 0, world := snd (find_captcha_input E (world st))\<rparr>))"
proof -
  obtain b w where f: "find_captcha_input E (world st) = (b, w)"
    by (cases "find_captcha_input E (world st)") blast
  with assms(3) have nb: "\<not> b" by simp
  have "attempt_cycle E S (st\<lparr>attempt := 0\<rparr>) =
          Return True (emit [Cycle 0, FindInput False, LogNoCaptcha] (st\<lparr>attempt := 0, world := w\<rparr>))"
    using f nb by (simp add: attempt_cycle_def)
  then have "solve_loop E S max_attempts (st\<lparr>attempt := 0\<rparr>) =
          (True, emit [Cycle 0, FindInput False, LogNoCaptcha] (st\<lparr>attempt := 0, world := w\<rparr>))"
    using assms(2) by (simp add: solve_loop_unfold [of E S max_attempts "st\<lparr>attempt := 0\<rparr>"])
  with assms(1) f show ?thesis by (simp add: solve_captcha_def)
qed

lemmas demo_defs =
  demo_env_def demo_page_def demo_solver_def demo_state_def init_solver_def

theorem no_captcha_reports_solved_witness:
  "reader (demo_solver False ''ABCD'') = Some (\<lambda>img. Some [lit ''ABCD'']) \<and>
   (0::int) < 3 \<and>
   \<not> fst (find_captcha_input demo_env (world (demo_state (demo_page False 0)))) \<and>
   solve_captcha demo_env (demo_solver False ''ABCD'') 3 (demo_state (demo_page False 0)) =
     (True, emit [Cycle 0, FindInput False, LogNoCaptcha]
        ((demo_state (demo_page False 0))
           \<lparr>attempt := 0,
            world := snd (find_captcha_input demo_env (world (demo_state (demo_page False 0))))\<rparr>))"
proof -
  have h1: "reader (demo_solver False ''ABCD'') = Some (\<lambda>img. Some [lit ''ABCD''])"
    by (simp add: demo_defs)
  have h2: "(0::int) < 3" by simp
  have h3: "\<not> fst (find_captcha_input demo_env (world (demo_state (demo_page False 0))))"
    by (simp add: demo_defs)
  show ?thesis
    by (rule conjI [OF h1 conjI [OF h2 conjI [OF h3 no_captcha_reports_solved [OF h1 h2 h3]]]])
qed

lemmas demo_eval =
  demo_defs demo_st0_def demo_st1_def read_captcha_def
  download_captcha_image_def take_screenshot_def preprocess_image_def read_image_def
  recognize_captcha_def submit_text_def corrector_defs py_strip_def py_isspace_def lit_def
  emit_def

text \<open>
  Claim C2. In a call of \<open>solve_captcha\<close> with an available engine and a positive
  \<open>max_attempts\<close>, the loop body is entered with the counter values 0, 1, 2, ... in this
  order, each once; the counter ends between 0 and \<open>max_attempts\<close>; it is below
  \<open>max_attempts\<close> when the call returns \<open>True\<close> and equal to it when the call returns
  \<open>False\<close>; so at most \<open>max_attempts\<close> passes and at most \<open>max_attempts\<close>
  recognitions are made.
\<close>

theorem attempt_counter_bounded:
  assumes pos: "0 < max_attempts"
    and rd: "reader S = Some readtext"
    and run: "solve_captcha E S max_attempts st = (b, st')"
  shows "0 \<le> attempt st' \<and> attempt st' \<le> max_attempts \<and>
     (if b then attempt st' < max_attempts else attempt st' = max_attempts) \<and>
     cycle_indices (trace st') =
       cycle_indices (trace st) @ [0 .. (if b then attempt st' else attempt st' - 1)] \<and>
     length (cycle_indices (trace st')) \<le> length (cycle_indices (trace st)) + nat max_attempts \<and>
     length (recognized (trace st')) \<le> length (recognized (trace st)) + nat max_attempts"
proof -
  define I where "I = (\<lambda>s::'a state. 0 \<le> attempt s \<and> attempt s \<le> max_attempts \<and>
     cycle_indices (trace s) = cycle_indices (trace st) @ [0 .. attempt s - 1] \<and>
     length (recognized (trace s)) \<le> length (recognized (trace st)) + nat (attempt s))"
  define R where "R = (\<lambda>(r::bool) (s::'a state). 0 \<le> attempt s \<and> attempt s \<le> max_attempts \<and>
     (if r then attempt s < max_attempts else attempt s = max_attempts) \<and>
     cycle_indices (trace s) =
       cycle_indices (trace st) @ [0 .. (if r then attempt s else attempt s - 1)] \<and>
     length (recognized (trace s))
       \<le> length (recognized (trace st)) + nat (attempt s) + (if r then 1 else 0))"
  have "R (fst (solve_loop E S max_attempts (st\<lparr>attempt := 0\<rparr>)))
          (snd (solve_loop E S max_attempts (st\<lparr>attempt := 0\<rparr>)))"
  proof (rule solve_loop_rule [where I = I])
    show "I (st\<lparr>attempt := 0\<rparr>)" using pos by (simp add: I_def)
  next
    fix s s' assume i: "I s" and lt: "attempt s < max_attempts"
      and c: "attempt_cycle E S s = Continue s'"
    from cycle_step [OF c] obtain rs es fs
      where e: "emits s s' [attempt s] rs es fs" and l: "length rs \<le> 1" by auto
    have a: "attempt s' = attempt s + 1" using c by (rule attempt_cycle_Continue)
    from i have nn: "0 \<le> attempt s" by (simp add: I_def)
    have up: "[0 .. attempt s] = [0 .. attempt s - 1] @ [attempt s]"
      using nn by (rule upto_rec2)
    have na: "nat (attempt s + 1) = nat (attempt s) + 1" using nn by arith
    show "I s'" using i lt a l emitsD(1,2) [OF e] up na by (simp add: I_def)
  next
    fix s r s' assume i: "I s" and lt: "attempt s < max_attempts"
      and c: "attempt_cycle E S s = Return r s'"
    from cycle_step [OF c] obtain rs es fs
      where e: "emits s s' [attempt s] rs es fs" and l: "length rs \<le> 1" by auto
    from cycle_Return [OF c] have r: "r" and a: "attempt s' = attempt s" by simp_all
    from i have nn: "0 \<le> attempt s" by (simp add: I_def)
    have up: "[0 .. attempt s] = [0 .. attempt s - 1] @ [attempt s]"
      using nn by (rule upto_rec2)
    show "R r s'" using i lt a r l emitsD(1,2) [OF e] up by (simp add: I_def R_def)
  next
    fix s assume i: "I s" and ge: "\<not> attempt s < max_attempts"
    then show "R False (emit [LogGaveUp] s)" by (auto simp: I_def R_def)
  qed
  moreover have "solve_captcha E S max_attempts st = solve_loop E S max_attempts (st\<lparr>attempt := 0\<rparr>)"
    using rd by (simp add: solve_captcha_def)
  ultimately have r: "R b st'" using run by (metis fst_conv snd_conv)
  show ?thesis
  proof (cases b)
    case True
    with r have f: "0 \<le> attempt st'" "attempt st' < max_attempts"
      "cycle_indices (trace st') = cycle_indices (trace st) @ [0 .. attempt st']"
      "length (recognized (trace st')) \<le> length (recognized (trace st)) + nat (attempt st') + 1"
      by (auto simp: R_def)
    have "nat (attempt st' + 1) \<le> nat max_attempts" using f(1,2) by arith
    moreover have "nat (attempt st') + 1 \<le> nat max_attempts" using f(1,2) by arith
    ultimately show ?thesis using True f by simp
  next
    case False
    with r have f: "0 \<le> attempt st'" "attempt st' = max_attempts"
      "cycle_indices (trace st') = cycle_indices (trace st) @ [0 .. attempt st' - 1]"
      "length (recognized (trace st')) \<le> length (recognized (trace st)) + nat (attempt st')"
      by (auto simp: R_def)
    show ?thesis using False f by simp
  qed
qed

theorem attempt_counter_bounded_witness:
  "(0::int) < 3 \<and>
   reader (demo_solver False ''ABCD'') = Some (\<lambda>img. Some [lit ''ABCD'']) \<and>
   solve_captcha demo_env (demo_solver False ''ABCD'') 3 (demo_state (demo_page True 5))
     = (fst demo_run, snd demo_run) \<and>
   0 \<le> attempt (snd demo_run) \<and> attempt (snd demo_run) \<le> 3 \<and>
   (if fst demo_run then attempt (snd demo_run) < 3 else attempt (snd demo_run) = 3) \<and>
   cycle_indices (trace (snd demo_run)) =
     cycle_indices (trace (demo_state (demo_page True 5)))
       @ [0 .. (if fst demo_run then attempt (snd demo_run) else attempt (snd demo_run) - 1)] \<and>
   length (cycle_indices (trace (snd demo_run)))
     \<le> length (cycle_indices (trace (demo_state (demo_page True 5)))) + nat 3 \<and>
   length (recognized (trace (snd demo_run)))
     \<le> length (recognized (trace (demo_state (demo_page True 5)))) + nat 3"
proof -
  have h1: "(0::int) < 3" by simp
  have h2: "reader (demo_solver False ''ABCD'') = Some (\<lambda>img. Some [lit ''ABCD''])"
    by (simp add: demo_defs)
  have h3: "solve_captcha demo_env (demo_solver False ''ABCD'') 3 (demo_state (demo_page True 5))
     = (fst demo_run, snd demo_run)"
    by (simp add: demo_run_def)
  show ?thesis
    by (rule conjI [OF h1 conjI [OF h2 conjI [OF h3 attempt_counter_bounded [OF h1 h2 h3]]]])
qed

lemma try_different_projections:
  "entered (trace (try_different_image E st)) = entered (trace st)"
  "length (fresh_requests (trace (try_different_image E st)))
     = length (fresh_requests (trace st)) + 1"
  using try_different_trace [of E st] by auto

text \<open>
  A pass through the loop body of \<open>AmazonCaptchaSolver\<close> that submits: the input field
  is found, a text of four or more characters is recognised, it is typed in and the
  button is clicked. If the query after the submission finds the input field again, a
  different image is requested, the counter goes up by one and the loop goes on from
  there. If the query does not find it, the files of the attempt are removed and the
  call returns \<open>True\<close>.
\<close>

lemma amazon_verification_decides_attempt:
  assumes amazon: "variant S = Amazon"
    and found: "fst (find_captcha_input E (world st))"
    and read: "read_captcha E S
                 (emit [Cycle (attempt st), FindInput True]
                    (st\<lparr>world := snd (find_captcha_input E (world st))\<rparr>)) = (Some text, st1)"
    and long: "4 \<le> length text"
    and submitted: "submit_text E text st1 = (True, st2)"
    and more: "attempt st < max_attempts"
  shows "if fst (find_captcha_input E (world st2))
     then solve_loop E S max_attempts st =
            solve_loop E S max_attempts
              (next_attempt (try_different_image E
                 (emit [FindInput True] (st2\<lparr>world := snd (find_captcha_input E (world st2))\<rparr>)))) \<and>
          attempt (next_attempt (try_different_image E
                 (emit [FindInput True] (st2\<lparr>world := snd (find_captcha_input E (world st2))\<rparr>))))
            = attempt st + 1 \<and>
          length (fresh_requests (trace (try_different_image E
                 (emit [FindInput True] (st2\<lparr>world := snd (find_captcha_input E (world st2))\<rparr>)))))
            = length (fresh_requests (trace st2)) + 1
     else solve_loop E S max_attempts st =
            (True,
             cleanup_files E S (attempt st) True
               (emit [FindInput False, LogSolved]
                  (st2\<lparr>world := snd (find_captcha_input E (world st2))\<rparr>)))"
proof -
  obtain w where f: "find_captcha_input E (world st) = (True, w)"
    using found by (cases "find_captcha_input E (world st)") auto
  have cyc: "attempt_cycle E S st = verify_submission E S st2"
    using f read long submitted by (simp add: attempt_cycle_def)
  have a2: "attempt st2 = attempt st"
    using attempt_submit [OF submitted] attempt_read [OF read] by simp
  have loop: "solve_loop E S max_attempts st =
     (case verify_submission E S st2 of
        Return b st' \<Rightarrow> (b, st')
      | Continue st' \<Rightarrow> solve_loop E S max_attempts st')"
    using more cyc by (simp add: solve_loop_unfold [of E S max_attempts st])
  obtain b2 w2 where f2: "find_captcha_input E (world st2) = (b2, w2)"
    by (cases "find_captcha_input E (world st2)") blast
  show ?thesis
  proof (cases b2)
    case True
    have "verify_submission E S st2 =
            Continue (next_attempt (try_different_image E (emit [FindInput True] (st2\<lparr>world := w2\<rparr>))))"
      using f2 True by (simp add: verify_submission_def)
    with loop have "solve_loop E S max_attempts st =
            solve_loop E S max_attempts
              (next_attempt (try_different_image E (emit [FindInput True] (st2\<lparr>world := w2\<rparr>))))"
      by simp
    then show ?thesis using f2 True a2 by (simp add: try_different_projections)
  next
    case False
    have "verify_submission E S st2 =
            Return True
              (cleanup_files E S (attempt st) True
                 (emit [FindInput False, LogSolved] (st2\<lparr>world := w2\<rparr>)))"
      using f2 False a2 amazon by (simp add: verify_submission_def)
    with loop show ?thesis using f2 False by simp
  qed
qed

text \<open>
  Claim C1 fails in \<open>SeleniumCaptchaSolver\<close>. The page shows a captcha and accepts the
  first submission, the engine reads ABCD, \<open>max_attempts\<close> is 1. After the submission
  the input field is gone and the solver logs "Successfully solved captcha!"; the call of
  the missing method \<open>_cleanup_files\<close> then raises, the counter goes up to 1, and
  \<open>solve_captcha\<close> returns \<open>False\<close>. \<open>AmazonCaptchaSolver\<close> returns \<open>True\<close> on the same
  page.
\<close>

theorem selenium_verified_submission_reported_failed:
  "solve_captcha demo_env
     (init_solver Selenium ''captcha_failures'' False (Some (\<lambda>img. Some [lit ''ABCD''])))
     1 (demo_state (demo_page True 0))
     = (False,
        \<lparr>world = \<lparr>captcha_shown = False, rejections = 0, now = 3\<rparr>,
           files = Map.empty, attempt = 1,
           trace = [Cycle 0, FindInput True, Download (Some [1, 2, 3]),
                    Preprocess (Some [[1, 2, 3]]), Recognize (lit ''ABCD''),
                    EnterText (lit ''ABCD'') True, ClickContinue True, Sleep 3,
                    FindInput False, LogSolved, LogGaveUp]\<rparr>) \<and>
   fst (solve_captcha demo_env
          (init_solver Amazon ''captcha_failures'' False (Some (\<lambda>img. Some [lit ''ABCD''])))
          1 (demo_state (demo_page True 0)))"
  by (simp add: solve_captcha_def solve_loop.simps attempt_cycle_def verify_submission_def
      cleanup_files_def next_attempt_def demo_eval)



subsection \<open>The alphabet of the corrected text\<close>

text \<open>
  Claim C10, as amended. For every input string of ASCII characters the output of the
  corrector consists of capital ASCII letters and ASCII digits only. For every input
  string whatever, the output contains none of the characters 0, 1, 5, 8. And every
  text that a call of \<open>solve_captcha\<close> types into the input field contains none of them:
  a challenge whose answer contains one of them is never answered.
\<close>

theorem corrected_text_alphabet:
  assumes "list_all is_ascii s"
  shows "list_all (\<lambda>c. ascii_upper c \<or> ascii_digit c) (fix_common_errors U s) \<and>
         no_confusable (fix_common_errors U t) \<and>
         list_all no_confusable
           (drop (length (entered (trace st)))
              (entered (trace (snd (solve_captcha E S max_attempts st)))))"
proof -
  have "list_all corrected_cp (fix_common_errors U s)"
    using assms by (rule fix_ascii_corrected)
  then have a: "list_all (\<lambda>c. ascii_upper c \<or> ascii_digit c) (fix_common_errors U s)"
    by (auto simp: list_all_iff corrected_cp_def)
  have b: "no_confusable (fix_common_errors U t)"
    by (auto simp: no_confusable_def list_all_iff dest: fix_no_confusable)
  from solve_captcha_entered [of E S max_attempts st] obtain new
    where n: "entered (trace (snd (solve_captcha E S max_attempts st))) = entered (trace st) @ new"
      and ok: "list_all (\<lambda>t. 4 \<le> length t \<and> no_confusable t) new" by blast
  have "list_all no_confusable new" using ok by (simp add: list_all_iff)
  then have c: "list_all no_confusable
           (drop (length (entered (trace st)))
              (entered (trace (snd (solve_captcha E S max_attempts st)))))"
    by (simp add: n)
  from a b c show ?thesis by simp
qed

theorem corrected_text_alphabet_witness:
  "list_all is_ascii (lit ''a1-b0 8z'') \<and>
   list_all (\<lambda>c. ascii_upper c \<or> ascii_digit c)
     (fix_common_errors ucd_excerpt (lit ''a1-b0 8z'')) \<and>
   no_confusable (fix_common_errors ucd_excerpt [233, 48, 496]) \<and>
   list_all no_confusable
     (drop (length (entered (trace demo_st0)))
        (entered (trace (snd (solve_captcha demo_env (demo_solver False ''ABCD'') 3 demo_st0)))))"
proof -
  have h: "list_all is_ascii (lit ''a1-b0 8z'')"
    by (simp add: lit_def is_ascii_def)
  show ?thesis
    by (rule conjI [OF h corrected_text_alphabet [OF h]])
qed

text \<open>
  Claim C10 as stated, for every input string, fails: the corrected form of the letter
  U+00E9 is the one character U+00C9, which is neither a capital ASCII letter nor an
  ASCII digit.
\<close>

theorem corrected_text_alphabet_counterexample:
  "fix_common_errors ucd_excerpt [233] = [201] \<and> \<not> (ascii_upper 201 \<or> ascii_digit 201)"
  by (simp add: corrector_defs ucd_excerpt_def)

subsection \<open>The manual fallback\<close>

lemma poll_round_simps [simp]:
  "world (poll_round E st) = sleep E 2 (snd (find_captcha_input E (world st)))"
  "trace (poll_round E st) = trace st @ [FindInput True, Sleep 2]"
  "files (poll_round E st) = files st"
  "attempt (poll_round E st) = attempt st"
  by (simp_all add: poll_round_def emit_def)












subsection \<open>The files kept for debugging\<close>

lemma screenshots_append [simp]: "screenshots (a @ b) = screenshots a @ screenshots b"
  by (induction a) (simp_all split: event.splits)

lemma downloads_append [simp]: "downloads (a @ b) = downloads a @ downloads b"
  by (induction a) (simp_all split: event.splits option.splits)

lemma bitmaps_append [simp]: "bitmaps (a @ b) = bitmaps a @ bitmaps b"
  by (induction a) (simp_all split: event.splits option.splits)

lemma written_Nil [simp]: "written S [] fs = fs"
  by (simp add: written_def)

lemma written_append [simp]: "written S (a @ b) fs = written S b (written S a fs)"
  by (simp add: written_def)

lemma written_single [simp]: "written S [e] fs = write_event S e fs"
  by (simp add: written_def)

lemma written_snoc: "written S (evs @ [e]) fs = write_event S e (written S evs fs)"
  by simp

lemma written_quiet:
  "screenshots evs = [] \<Longrightarrow> downloads evs = [] \<Longrightarrow> bitmaps evs = [] \<Longrightarrow>
     written S evs fs = fs"
  by (induction evs arbitrary: fs)
     (auto simp: written_def write_event_def split: event.splits option.splits if_splits)

text \<open>The three kinds of file names differ.\<close>

lemma paths_distinct:
  "temp_captcha_path S \<noteq> preprocessed_path S"
  "preprocessed_path S \<noteq> temp_captcha_path S"
  "screenshot_path S k \<noteq> temp_captcha_path S"
  "temp_captcha_path S \<noteq> screenshot_path S k"
  "screenshot_path S k \<noteq> preprocessed_path S"
  "preprocessed_path S \<noteq> screenshot_path S k"
  by (simp_all add: temp_captcha_path_def preprocessed_path_def screenshot_path_def
      path_join_def)

lemma written_present: "fs p \<noteq> None \<Longrightarrow> written S evs fs p \<noteq> None"
proof (induction evs rule: rev_induct)
  case Nil
  then show ?case by simp
next
  case (snoc e evs)
  then show ?case
    by (auto simp: written_snoc write_event_def split: event.splits option.splits)
qed

lemma written_screenshot:
  assumes "list_all (\<lambda>p. \<exists>k. p = screenshot_path S k) (screenshots evs)"
    and "p \<in> set (screenshots evs)"
  shows "written S evs fs p = Some ScreenshotImage"
  using assms
proof (induction evs rule: rev_induct)
  case Nil
  then show ?case by simp
next
  case (snoc e evs)
  from snoc.prems have "\<exists>k. p = screenshot_path S k" by (auto simp: list_all_iff)
  then have ne: "p \<noteq> temp_captcha_path S" "p \<noteq> preprocessed_path S"
    using paths_distinct by auto
  show ?case
  proof (cases "p \<in> set (screenshots [e])")
    case True
    then show ?thesis
      by (auto simp: written_snoc write_event_def split: event.splits if_splits)
  next
    case False
    with snoc.prems have "p \<in> set (screenshots evs)"
      and "list_all (\<lambda>p. \<exists>k. p = screenshot_path S k) (screenshots evs)" by simp_all
    then have "written S evs fs p = Some ScreenshotImage" using snoc.IH by simp
    with False ne show ?thesis
      by (auto simp: written_snoc write_event_def split: event.splits option.splits if_splits)
  qed
qed

lemma written_download:
  assumes "save_debug_output S"
    and "list_all (\<lambda>p. \<exists>k. p = screenshot_path S k) (screenshots evs)"
    and "downloads evs \<noteq> []"
  shows "written S evs fs (temp_captcha_path S) = Some (RawImage (last (downloads evs)))"
  using assms(2,3)
proof (induction evs rule: rev_induct)
  case Nil
  then show ?case by simp
next
  case (snoc e evs)
  show ?case
  proof (cases "downloads [e] = []")
    case True
    with snoc.prems have "downloads evs \<noteq> []"
      and "list_all (\<lambda>p. \<exists>k. p = screenshot_path S k) (screenshots evs)" by simp_all
    then have "written S evs fs (temp_captcha_path S) = Some (RawImage (last (downloads evs)))"
      using snoc.IH by simp
    with True snoc.prems(1) show ?thesis
      by (auto simp: written_snoc write_event_def paths_distinct
          split: event.splits option.splits if_splits)
  next
    case False
    with assms(1) show ?thesis
      by (auto simp: written_snoc write_event_def split: event.splits option.splits)
  qed
qed

lemma written_bitmap:
  assumes "save_debug_output S"
    and "list_all (\<lambda>p. \<exists>k. p = screenshot_path S k) (screenshots evs)"
    and "bitmaps evs \<noteq> []"
  shows "written S evs fs (preprocessed_path S) = Some (BitmapImage (last (bitmaps evs)))"
  using assms(2,3)
proof (induction evs rule: rev_induct)
  case Nil
  then show ?case by simp
next
  case (snoc e evs)
  show ?case
  proof (cases "bitmaps [e] = []")
    case True
    with snoc.prems have "bitmaps evs \<noteq> []"
      and "list_all (\<lambda>p. \<exists>k. p = screenshot_path S k) (screenshots evs)" by simp_all
    then have "written S evs fs (preprocessed_path S) = Some (BitmapImage (last (bitmaps evs)))"
      using snoc.IH by simp
    with True snoc.prems(1) show ?thesis
      by (auto simp: written_snoc write_event_def paths_distinct
          split: event.splits option.splits if_splits)
  next
    case False
    with assms(1) show ?thesis
      by (auto simp: written_snoc write_event_def split: event.splits option.splits)
  qed
qed

lemma kept_refl [simp]: "kept S st st"
  by (simp add: kept_def)

lemma kept_trans:
  assumes "kept S a b" and "kept S b c"
  shows "kept S a c"
proof -
  from assms(1) obtain e1 where 1: "trace b = trace a @ e1" "removed e1 = []"
    "list_all (\<lambda>p. \<exists>k. p = screenshot_path S k) (screenshots e1)"
    "files b = written S e1 (files a)" unfolding kept_def by blast
  from assms(2) obtain e2 where 2: "trace c = trace b @ e2" "removed e2 = []"
    "list_all (\<lambda>p. \<exists>k. p = screenshot_path S k) (screenshots e2)"
    "files c = written S e2 (files b)" unfolding kept_def by blast
  have "trace c = trace a @ (e1 @ e2)" "removed (e1 @ e2) = []"
    "list_all (\<lambda>p. \<exists>k. p = screenshot_path S k) (screenshots (e1 @ e2))"
    "files c = written S (e1 @ e2) (files a)"
    using 1 2 by simp_all
  then show ?thesis unfolding kept_def by blast
qed

lemma kept_world [simp]: "kept S a (b\<lparr>world := w\<rparr>) = kept S a b"
  by (simp add: kept_def)

lemma kept_attempt [simp]: "kept S a (b\<lparr>attempt := k\<rparr>) = kept S a b"
  by (simp add: kept_def)

lemma kept_attempt_left [simp]: "kept S (a\<lparr>attempt := k\<rparr>) b = kept S a b"
  by (simp add: kept_def)

lemma kept_next_attempt [simp]: "kept S a (next_attempt b) = kept S a b"
  by (simp add: kept_def next_attempt_def)

lemma kept_emit:
  assumes "kept S a b" and "removed evs = []" and "screenshots evs = []"
    and "downloads evs = []" and "bitmaps evs = []"
  shows "kept S a (emit evs b)"
proof -
  have "kept S b (emit evs b)"
    unfolding kept_def using assms(2-5)
    by (intro exI [of _ evs]) (simp add: emit_def written_quiet)
  with assms(1) show ?thesis by (rule kept_trans)
qed

lemma download_kept: "download_captcha_image E S st = (r, st') \<Longrightarrow> kept S st st'"
  by (auto simp: download_captcha_image_def kept_def emit_def written_def write_event_def
      split: prod.splits option.splits if_splits)

lemma screenshot_kept: "take_screenshot E S st = (b, st') \<Longrightarrow> kept S st st'"
  by (auto simp: take_screenshot_def kept_def emit_def written_def write_event_def
      split: prod.splits if_splits)

lemma preprocess_kept: "preprocess_image E S r st = (x, st') \<Longrightarrow> kept S st st'"
  by (auto simp: preprocess_image_def kept_def emit_def written_def write_event_def
      split: option.splits if_splits)

lemma read_kept:
  assumes "read_captcha E S st = (x, st')"
  shows "kept S st st'"
proof -
  obtain r st1 where d: "download_captcha_image E S st = (r, st1)"
    by (cases "download_captcha_image E S st") blast
  have k1: "kept S st st1" using d by (rule download_kept)
  show ?thesis
  proof (cases r)
    case None
    with assms d k1 show ?thesis by (simp add: read_captcha_def)
  next
    case (Some ref)
    obtain b st2 where s: "take_screenshot E S st1 = (b, st2)"
      by (cases "take_screenshot E S st1") blast
    have k2: "kept S st st2" by (rule kept_trans [OF k1 screenshot_kept [OF s]])
    obtain y st3 where p: "preprocess_image E S ref st2 = (y, st3)"
      by (cases "preprocess_image E S ref st2") blast
    have k3: "kept S st st3" by (rule kept_trans [OF k2 preprocess_kept [OF p]])
    have k4: "kept S st (emit [Recognize t] st3)" for t
      using k3 by (rule kept_emit) simp_all
    from assms d Some s p k2 k3 k4 show ?thesis
      by (auto simp: read_captcha_def split: bool.splits option.splits)
  qed
qed

lemma submit_kept: "submit_text E t st = (b, st') \<Longrightarrow> kept S st st'"
  by (auto simp: submit_text_def kept_def emit_def written_def write_event_def
      split: prod.splits bool.splits)

lemma try_different_kept:
  assumes "kept S a b"
  shows "kept S a (try_different_image E b)"
proof -
  have "kept S a (emit [TryDifferentImage True, Sleep 1] (b\<lparr>world := w\<rparr>))" for w
    by (rule kept_emit) (simp_all add: assms)
  moreover have "kept S a (emit [TryDifferentImage False] (b\<lparr>world := w\<rparr>))" for w
    by (rule kept_emit) (simp_all add: assms)
  ultimately show ?thesis by (simp add: try_different_image_def split: prod.splits)
qed

lemma verify_kept:
  assumes "verify_submission E S st = Continue st' \<or> variant S \<noteq> Amazon \<or> \<not> save_debug_output S"
  shows "kept S st (state_of (verify_submission E S st))"
proof -
  obtain b w where f: "find_captcha_input E (world st) = (b, w)"
    by (cases "find_captcha_input E (world st)") blast
  show ?thesis
  proof (cases b)
    case True
    have "kept S st (emit [FindInput True] (st\<lparr>world := w\<rparr>))"
      by (rule kept_emit) simp_all
    from try_different_kept [OF this, of E] f True show ?thesis
      by (simp add: verify_submission_def)
  next
    case False
    have k: "kept S st (emit [FindInput False, LogSolved] (st\<lparr>world := w\<rparr>))"
      by (rule kept_emit) simp_all
    from f False assms have "variant S \<noteq> Amazon \<or> \<not> save_debug_output S"
      by (cases "variant S") (simp_all add: verify_submission_def)
    with f False k show ?thesis
      by (auto simp: verify_submission_def cleanup_files_def split: variant.splits)
  qed
qed

text \<open>
  A pass through the loop body removes no file, unless it is the pass of
  \<open>AmazonCaptchaSolver\<close> with debugging on that ends the call.
\<close>

lemma cycle_kept:
  assumes "attempt_cycle E S st = Continue st' \<or> variant S \<noteq> Amazon \<or> \<not> save_debug_output S"
  shows "kept S st (state_of (attempt_cycle E S st))"
proof -
  obtain b w where f: "find_captcha_input E (world st) = (b, w)"
    by (cases "find_captcha_input E (world st)") blast
  show ?thesis
  proof (cases b)
    case False
    have "kept S st (emit [Cycle (attempt st), FindInput False, LogNoCaptcha] (st\<lparr>world := w\<rparr>))"
      by (rule kept_emit) simp_all
    with f False show ?thesis by (simp add: attempt_cycle_def)
  next
    case True
    define st0 where "st0 = emit [Cycle (attempt st), FindInput True] (st\<lparr>world := w\<rparr>)"
    have k0: "kept S st st0" unfolding st0_def by (rule kept_emit) simp_all
    obtain x st1 where r: "read_captcha E S st0 = (x, st1)"
      by (cases "read_captcha E S st0") blast
    have k1: "kept S st st1" by (rule kept_trans [OF k0 read_kept [OF r]])
    show ?thesis
    proof (cases x)
      case None
      with f True r k1 show ?thesis by (simp add: attempt_cycle_def st0_def)
    next
      case (Some t)
      show ?thesis
      proof (cases "length t < 4")
        case True
        with f \<open>b\<close> r Some try_different_kept [OF k1, of E] show ?thesis
          by (simp add: attempt_cycle_def st0_def)
      next
        case False
        obtain sb st2 where sub: "submit_text E t st1 = (sb, st2)"
          by (cases "submit_text E t st1") blast
        have k2: "kept S st st2" by (rule kept_trans [OF k1 submit_kept [OF sub]])
        show ?thesis
        proof (cases sb)
          case False
          with f \<open>b\<close> r Some \<open>\<not> length t < 4\<close> sub k2 show ?thesis
            by (simp add: attempt_cycle_def st0_def)
        next
          case True
          have eq: "attempt_cycle E S st = verify_submission E S st2"
            using f \<open>b\<close> r Some \<open>\<not> length t < 4\<close> sub True
            by (simp add: attempt_cycle_def st0_def)
          with assms have "verify_submission E S st2 = Continue st' \<or> variant S \<noteq> Amazon \<or>
              \<not> save_debug_output S" by simp
          from kept_trans [OF k2 verify_kept [OF this]] eq show ?thesis by simp
        qed
      qed
    qed
  qed
qed

lemma solve_loop_kept:
  "(fst (solve_loop E S m st) \<and> variant S = Amazon \<and> save_debug_output S) \<or>
   kept S st (snd (solve_loop E S m st))"
proof -
  have "(\<lambda>b s. (b \<and> variant S = Amazon \<and> save_debug_output S) \<or> kept S st s)
          (fst (solve_loop E S m st)) (snd (solve_loop E S m st))"
  proof (rule solve_loop_rule [where I = "kept S st"])
    show "kept S st st" by simp
  next
    fix s s' assume i: "kept S st s" and c: "attempt_cycle E S s = Continue s'"
    from c have "attempt_cycle E S s = Continue s' \<or> variant S \<noteq> Amazon \<or> \<not> save_debug_output S"
      by simp
    from kept_trans [OF i cycle_kept [OF this]] c show "kept S st s'" by simp
  next
    fix s b s' assume i: "kept S st s" and c: "attempt_cycle E S s = Return b s'"
    show "(b \<and> variant S = Amazon \<and> save_debug_output S) \<or> kept S st s'"
    proof (cases "variant S = Amazon \<and> save_debug_output S")
      case True
      with cycle_Return [OF c] show ?thesis by simp
    next
      case False
      then have "attempt_cycle E S s = Continue s' \<or> variant S \<noteq> Amazon \<or> \<not> save_debug_output S"
        by blast
      from kept_trans [OF i cycle_kept [OF this]] c show ?thesis by simp
    qed
  next
    fix s assume "kept S st s"
    then have "kept S st (emit [LogGaveUp] s)" by (rule kept_emit) simp_all
    then show "(False \<and> variant S = Amazon \<and> save_debug_output S) \<or> kept S st (emit [LogGaveUp] s)"
      by simp
  qed
  then show ?thesis by simp
qed

lemma solve_captcha_kept:
  "(fst (solve_captcha E S m st) \<and> variant S = Amazon \<and> save_debug_output S) \<or>
   kept S st (snd (solve_captcha E S m st))"
proof (cases "reader S")
  case None
  have "kept S st (emit [LogUnavailable] st)" by (rule kept_emit) simp_all
  with None show ?thesis by (simp add: solve_captcha_def)
next
  case (Some rt)
  with solve_loop_kept [of E S m "st\<lparr>attempt := 0\<rparr>"] show ?thesis
    by (simp add: solve_captcha_def)
qed

text \<open>The solver for Playwright removes no file at all.\<close>

lemma playwright_submit_kept: "playwright_submit E t st = (b, st') \<Longrightarrow> kept S st st'"
  by (auto simp: playwright_submit_def kept_def emit_def written_def write_event_def
      split: prod.splits bool.splits)

lemma playwright_verify_kept: "kept S st (state_of (playwright_verify E st))"
proof -
  obtain q w where f: "query_captcha_input E (world st) = (q, w)"
    by (cases "query_captcha_input E (world st)") blast
  have 1: "kept S st (emit [QueryRaised] (st\<lparr>world := w\<rparr>))"
    by (rule kept_emit) simp_all
  have "kept S st (emit [FindInput True] (st\<lparr>world := w\<rparr>))"
    by (rule kept_emit) simp_all
  then have 2: "kept S st (try_different_image E (emit [FindInput True] (st\<lparr>world := w\<rparr>)))"
    by (rule try_different_kept)
  have 3: "kept S st (emit [FindInput False, LogSolved] (st\<lparr>world := w\<rparr>))"
    by (rule kept_emit) simp_all
  from f 1 2 3 show ?thesis
    by (simp add: playwright_verify_def split: option.splits bool.splits)
qed

lemma playwright_cycle_kept: "kept S st (state_of (playwright_cycle E S st))"
proof -
  obtain q w where f: "query_captcha_input E (world st) = (q, w)"
    by (cases "query_captcha_input E (world st)") blast
  show ?thesis
  proof (cases "q = Some True")
    case False
    have "kept S st (emit [Cycle (attempt st), QueryRaised] (st\<lparr>world := w\<rparr>))"
      by (rule kept_emit) simp_all
    moreover
    have "kept S st (emit [Cycle (attempt st), FindInput False, LogNoCaptcha] (st\<lparr>world := w\<rparr>))"
      by (rule kept_emit) simp_all
    ultimately show ?thesis using f False
      by (simp add: playwright_cycle_def split: option.splits bool.splits)
  next
    case True
    define st0 where "st0 = emit [Cycle (attempt st), FindInput True] (st\<lparr>world := w\<rparr>)"
    have k0: "kept S st st0" unfolding st0_def by (rule kept_emit) simp_all
    obtain x st1 where r: "read_captcha E S st0 = (x, st1)"
      by (cases "read_captcha E S st0") blast
    have k1: "kept S st st1" by (rule kept_trans [OF k0 read_kept [OF r]])
    show ?thesis
    proof (cases x)
      case None
      with f True r k1 show ?thesis by (simp add: playwright_cycle_def st0_def)
    next
      case (Some t)
      show ?thesis
      proof (cases "length t < 4")
        case short: True
        with f True r Some try_different_kept [OF k1, of E] show ?thesis
          by (simp add: playwright_cycle_def st0_def)
      next
        case False
        obtain sb st2 where sub: "playwright_submit E t st1 = (sb, st2)"
          by (cases "playwright_submit E t st1") blast
        have k2: "kept S st st2" by (rule kept_trans [OF k1 playwright_submit_kept [OF sub]])
        show ?thesis
        proof (cases sb)
          case no: False
          with f True r Some \<open>\<not> length t < 4\<close> sub k2 show ?thesis
            by (simp add: playwright_cycle_def st0_def)
        next
          case yes: True
          have "playwright_cycle E S st = playwright_verify E st2"
            using f True r Some \<open>\<not> length t < 4\<close> sub yes
            by (simp add: playwright_cycle_def st0_def)
          with kept_trans [OF k2 playwright_verify_kept [of S st2 E]] show ?thesis by simp
        qed
      qed
    qed
  qed
qed

lemma playwright_loop_kept: "kept S st (snd (playwright_loop E S m st))"
proof (induction "nat (m - attempt st)" arbitrary: st rule: less_induct)
  case less
  show ?case
  proof (cases "attempt st < m")
    case False
    have "kept S st (emit [LogGaveUp] st)" by (rule kept_emit) simp_all
    with False show ?thesis by (simp add: playwright_loop.simps [of E S m st])
  next
    case True
    note k = playwright_cycle_kept [of S st E]
    show ?thesis
    proof (cases "playwright_cycle E S st")
      case (Return b s')
      with True k show ?thesis by (simp add: playwright_loop.simps [of E S m st])
    next
      case (Continue s')
      with True have eq: "playwright_loop E S m st = playwright_loop E S m s'"
        by (simp add: playwright_loop.simps [of E S m st])
      have "attempt s' = attempt st + 1" using Continue by (rule attempt_playwright_cycle)
      with True have "nat (m - attempt s') < nat (m - attempt st)" by simp
      from less.hyps [OF this] have "kept S s' (snd (playwright_loop E S m s'))" .
      moreover from k Continue have "kept S st s'" by simp
      ultimately show ?thesis unfolding eq by (rule kept_trans [rotated])
    qed
  qed
qed

lemma playwright_solve_kept: "kept S st (snd (playwright_solve_captcha E S m st))"
proof (cases "reader S")
  case None
  have "kept S st (emit [LogUnavailable] st)" by (rule kept_emit) simp_all
  with None show ?thesis by (simp add: playwright_solve_captcha_def)
next
  case (Some rt)
  have "kept S st (st\<lparr>attempt := 0\<rparr>)" by simp
  from kept_trans [OF this playwright_loop_kept [of S "st\<lparr>attempt := 0\<rparr>" E m]] Some
  show ?thesis by (simp add: playwright_solve_captcha_def)
qed

lemma kept_left_on_disk:
  assumes "kept S st st'"
  shows "left_on_disk S st st'"
proof -
  from assms obtain evs where e: "trace st' = trace st @ evs" "removed evs = []"
    and j: "list_all (\<lambda>p. \<exists>k. p = screenshot_path S k) (screenshots evs)"
    and w: "files st' = written S evs (files st)" unfolding kept_def by blast
  have 1: "\<forall>p. files st p \<noteq> None \<longrightarrow> files st' p \<noteq> None"
    unfolding w using written_present by blast
  have 2: "\<forall>p\<in>set (screenshots evs). files st' p = Some ScreenshotImage"
    unfolding w using written_screenshot [OF j] by blast
  have 3: "save_debug_output S \<and> downloads evs \<noteq> [] \<longrightarrow>
           files st' (temp_captcha_path S) = Some (RawImage (last (downloads evs)))"
    unfolding w using written_download [OF _ j] by blast
  have 4: "save_debug_output S \<and> bitmaps evs \<noteq> [] \<longrightarrow>
           files st' (preprocessed_path S) = Some (BitmapImage (last (bitmaps evs)))"
    unfolding w using written_bitmap [OF _ j] by blast
  from e w 1 2 3 4 show ?thesis unfolding left_on_disk_def by blast
qed

text \<open>What \<open>_cleanup_files\<close> leaves.\<close>

lemma remove_file_files:
  "files (remove_file E p st) = (\<lambda>q. if q = p \<and> os_remove E p then None else files st q)"
  by (auto simp: remove_file_def emit_def fun_eq_iff)

lemma cleanup_files_removed:
  assumes "save_debug_output S"
  shows "files (cleanup_files E S k True st) =
     (\<lambda>p. if (p = temp_captcha_path S \<or> p = preprocessed_path S \<or> p = screenshot_path S k) \<and>
              os_remove E p
           then None else files st p)"
  using assms by (auto simp: cleanup_files_def remove_file_files fun_eq_iff)

lemma verified_pass:
  assumes found: "fst (find_captcha_input E (world st))"
    and read: "read_captcha E S
                 (emit [Cycle (attempt st), FindInput True]
                    (st\<lparr>world := snd (find_captcha_input E (world st))\<rparr>)) = (Some text, st1)"
    and long: "4 \<le> length text"
    and submitted: "submit_text E text st1 = (True, st2)"
    and more: "attempt st < max_attempts"
  shows "solve_loop E S max_attempts st =
     (case verify_submission E S st2 of
        Return b st' \<Rightarrow> (b, st')
      | Continue st' \<Rightarrow> solve_loop E S max_attempts st')"
    and "attempt st2 = attempt st"
proof -
  obtain w where f: "find_captcha_input E (world st) = (True, w)"
    using found by (cases "find_captcha_input E (world st)") auto
  have cyc: "attempt_cycle E S st = verify_submission E S st2"
    using f read long submitted by (simp add: attempt_cycle_def)
  show "attempt st2 = attempt st"
    using attempt_submit [OF submitted] attempt_read [OF read] by simp
  show "solve_loop E S max_attempts st =
     (case verify_submission E S st2 of
        Return b st' \<Rightarrow> (b, st')
      | Continue st' \<Rightarrow> solve_loop E S max_attempts st')"
    using more cyc by (simp add: solve_loop_unfold [of E S max_attempts st])
qed

text \<open>
  Claim C9, as amended. A call of \<open>solve_captcha\<close> that returns \<open>False\<close> removes no
  file: the disk after it is the disk before it with the writes of the call replayed,
  so every file that was there is still there, every screenshot taken is there under
  the name of its attempt, and with debugging on \<open>temp_captcha.png\<close> and
  \<open>preprocessed_captcha.png\<close> hold the download and the bitmap of the last attempt that
  made one, those of the earlier attempts being overwritten. The same holds for every
  call of \<open>solve_captcha\<close> of \<open>PlaywrightCaptchaSolver\<close>, whatever it returns. In
  \<open>AmazonCaptchaSolver\<close> with debugging on, take the pass through the loop body whose
  submission is verified (the input field is gone): the call returns \<open>True\<close>, and of the
  three files of this attempt (\<open>temp_captcha.png\<close>, \<open>preprocessed_captcha.png\<close> and the
  screenshot of this attempt) those are gone for which \<open>os.remove\<close> succeeds, while
  every other file, the screenshots of earlier attempts among them, is as it was.
\<close>

theorem debug_artifacts_removed_or_kept:
  "(fst (solve_captcha E S m s) \<or>
    left_on_disk S s (snd (solve_captcha E S m s))) \<and>
   left_on_disk S s (snd (playwright_solve_captcha E S m s)) \<and>
   (save_debug_output S \<and>
    variant S = Amazon \<and>
    fst (find_captcha_input E (world st)) \<and>
    read_captcha E S
      (emit [Cycle (attempt st), FindInput True]
         (st\<lparr>world := snd (find_captcha_input E (world st))\<rparr>)) = (Some answer, sr) \<and>
    4 \<le> length answer \<and>
    submit_text E answer sr = (True, ss) \<and>
    \<not> fst (find_captcha_input E (world ss)) \<and>
    attempt st < max_attempts \<longrightarrow>
    fst (solve_loop E S max_attempts st) \<and>
    files (snd (solve_loop E S max_attempts st)) =
      (\<lambda>p. if (p = temp_captcha_path S \<or> p = preprocessed_path S \<or>
                 p = screenshot_path S (attempt st)) \<and> os_remove E p
            then None else files ss p))"
proof -
  have a: "fst (solve_captcha E S m s) \<or> left_on_disk S s (snd (solve_captcha E S m s))"
    using solve_captcha_kept [of E S m s] kept_left_on_disk by blast
  have b: "left_on_disk S s (snd (playwright_solve_captcha E S m s))"
    by (rule kept_left_on_disk [OF playwright_solve_kept])
  have c: "save_debug_output S \<and>
    variant S = Amazon \<and>
    fst (find_captcha_input E (world st)) \<and>
    read_captcha E S
      (emit [Cycle (attempt st), FindInput True]
         (st\<lparr>world := snd (find_captcha_input E (world st))\<rparr>)) = (Some answer, sr) \<and>
    4 \<le> length answer \<and>
    submit_text E answer sr = (True, ss) \<and>
    \<not> fst (find_captcha_input E (world ss)) \<and>
    attempt st < max_attempts \<longrightarrow>
    fst (solve_loop E S max_attempts st) \<and>
    files (snd (solve_loop E S max_attempts st)) =
      (\<lambda>p. if (p = temp_captcha_path S \<or> p = preprocessed_path S \<or>
                 p = screenshot_path S (attempt st)) \<and> os_remove E p
            then None else files ss p)"
  proof (intro impI, elim conjE)
    assume dbg: "save_debug_output S" and amazon: "variant S = Amazon"
      and found: "fst (find_captcha_input E (world st))"
      and read: "read_captcha E S
      (emit [Cycle (attempt st), FindInput True]
         (st\<lparr>world := snd (find_captcha_input E (world st))\<rparr>)) = (Some answer, sr)"
      and long: "4 \<le> length answer"
      and submitted: "submit_text E answer sr = (True, ss)"
      and gone: "\<not> fst (find_captcha_input E (world ss))"
      and more: "attempt st < max_attempts"
    note vp = verified_pass [OF found read long submitted more]
    obtain w2 where f2: "find_captcha_input E (world ss) = (False, w2)"
      using gone by (cases "find_captcha_input E (world ss)") auto
    have "verify_submission E S ss =
          Return True (cleanup_files E S (attempt st) True
                         (emit [FindInput False, LogSolved] (ss\<lparr>world := w2\<rparr>)))"
      using f2 amazon vp(2) by (simp add: verify_submission_def)
    with vp(1) have r: "solve_loop E S max_attempts st =
          (True, cleanup_files E S (attempt st) True
                   (emit [FindInput False, LogSolved] (ss\<lparr>world := w2\<rparr>)))"
      by simp
    show "fst (solve_loop E S max_attempts st) \<and>
    files (snd (solve_loop E S max_attempts st)) =
      (\<lambda>p. if (p = temp_captcha_path S \<or> p = preprocessed_path S \<or>
                 p = screenshot_path S (attempt st)) \<and> os_remove E p
            then None else files ss p)"
      by (simp add: r cleanup_files_removed [OF dbg] emit_def cong: if_cong)
  qed
  from a b c show ?thesis by (intro conjI)
qed

lemmas demo_dbg_eval =
  demo_eval demo_dbg1_def demo_dbg2_def temp_captcha_path_def preprocessed_path_def
  screenshot_path_def path_join_def str_of_int_def digit_char_def

theorem debug_artifacts_removed_or_kept_witness:
  "save_debug_output (demo_solver True ''ABCD'') \<and>
   variant (demo_solver True ''ABCD'') = Amazon \<and>
   fst (find_captcha_input demo_env (world demo_st0)) \<and>
   read_captcha demo_env (demo_solver True ''ABCD'')
      (emit [Cycle (attempt demo_st0), FindInput True]
         (demo_st0\<lparr>world := snd (find_captcha_input demo_env (world demo_st0))\<rparr>)) = (Some (lit ''ABCD''), demo_dbg1) \<and>
   4 \<le> length (lit ''ABCD'') \<and>
   submit_text demo_env (lit ''ABCD'') demo_dbg1 = (True, demo_dbg2) \<and>
   \<not> fst (find_captcha_input demo_env (world demo_dbg2)) \<and>
   attempt demo_st0 < 3 \<and>
   (fst (solve_captcha demo_env (demo_solver True ''ABCD'') 2 (demo_state (demo_page True 5))) \<or>
    left_on_disk (demo_solver True ''ABCD'') (demo_state (demo_page True 5)) (snd (solve_captcha demo_env (demo_solver True ''ABCD'') 2 (demo_state (demo_page True 5))))) \<and>
   left_on_disk (demo_solver True ''ABCD'') (demo_state (demo_page True 5)) (snd (playwright_solve_captcha demo_env (demo_solver True ''ABCD'') 2 (demo_state (demo_page True 5)))) \<and>
   fst (solve_loop demo_env (demo_solver True ''ABCD'') 3 demo_st0) \<and>
    files (snd (solve_loop demo_env (demo_solver True ''ABCD'') 3 demo_st0)) =
      (\<lambda>p. if (p = temp_captcha_path (demo_solver True ''ABCD'') \<or> p = preprocessed_path (demo_solver True ''ABCD'') \<or>
                 p = screenshot_path (demo_solver True ''ABCD'') (attempt demo_st0)) \<and> os_remove demo_env p
            then None else files demo_dbg2 p)"
proof -
  have h1: "save_debug_output (demo_solver True ''ABCD'')"
    by (simp add: demo_defs)
  have h2: "variant (demo_solver True ''ABCD'') = Amazon"
    by (simp add: demo_defs)
  have h3: "fst (find_captcha_input demo_env (world demo_st0))"
    by (simp add: demo_eval)
  have h4: "read_captcha demo_env (demo_solver True ''ABCD'')
      (emit [Cycle (attempt demo_st0), FindInput True]
         (demo_st0\<lparr>world := snd (find_captcha_input demo_env (world demo_st0))\<rparr>)) = (Some (lit ''ABCD''), demo_dbg1)"
    by (simp add: demo_dbg_eval)
  have h5: "4 \<le> length (lit ''ABCD'')"
    by (simp add: lit_def)
  have h6: "submit_text demo_env (lit ''ABCD'') demo_dbg1 = (True, demo_dbg2)"
    by (simp add: demo_dbg_eval)
  have h7: "\<not> fst (find_captcha_input demo_env (world demo_dbg2))"
    by (simp add: demo_dbg_eval)
  have h8: "attempt demo_st0 < 3"
    by (simp add: demo_eval)
  note hyps = conjI [OF h1 conjI [OF h2 conjI [OF h3 conjI [OF h4 conjI [OF h5 conjI [OF h6 conjI [OF h7 h8]]]]]]]
  note t = debug_artifacts_removed_or_kept [where E = demo_env
      and S = "demo_solver True ''ABCD''" and max_attempts = 3 and st = demo_st0
      and answer = "lit ''ABCD''" and sr = demo_dbg1 and ss = demo_dbg2
      and m = 2 and s = "demo_state (demo_page True 5)"]
  show ?thesis
    by (rule conjI [OF h1 conjI [OF h2 conjI [OF h3 conjI [OF h4 conjI [OF h5 conjI [OF h6 conjI [OF h7 conjI [OF h8 conjI [OF t [THEN conjunct1] conjI [OF t [THEN conjunct2, THEN conjunct1] t [THEN conjunct2, THEN conjunct2, THEN mp, OF hyps]]]]]]]]]]])
qed

text \<open>
  Claim C9 as stated fails in both halves. With debugging on, let the page reject the
  first submission and accept the second: \<open>AmazonCaptchaSolver\<close> returns \<open>True\<close> at
  attempt 1, by verification, and the screenshot of attempt 0 is still on disk. On the
  page whose image is new after every rejected submission, a call with two attempts
  returns \<open>False\<close>; the downloads were the bytes 5 and then the bytes 4, and the four
  files on disk are the two screenshots, \<open>temp_captcha.png\<close> with the bytes 4 and
  \<open>preprocessed_captcha.png\<close> with their bitmap: the download and the bitmap of attempt 0
  are gone. And \<open>PlaywrightCaptchaSolver\<close> returns \<open>True\<close> by verification at attempt 0
  with all three files of the attempt on disk.
\<close>

theorem debug_artifacts_counterexample:
  "fst (solve_captcha demo_env (demo_solver True ''ABCD'') 3 (demo_state (demo_page True 1))) \<and>
   attempt (snd (solve_captcha demo_env (demo_solver True ''ABCD'') 3 (demo_state (demo_page True 1)))) = 1 \<and>
   LogSolved \<in> set (trace (snd (solve_captcha demo_env (demo_solver True ''ABCD'') 3 (demo_state (demo_page True 1))))) \<and>
   files (snd (solve_captcha demo_env (demo_solver True ''ABCD'') 3 (demo_state (demo_page True 1))))
     ''captcha_failures/captcha_screenshot_0.png'' = Some ScreenshotImage \<and>
   \<not> fst (solve_captcha fresh_env (demo_solver True ''ABCD'') 2 (demo_state (demo_page True 5))) \<and>
   downloads (trace (snd (solve_captcha fresh_env (demo_solver True ''ABCD'') 2 (demo_state (demo_page True 5))))) = [[5], [4]] \<and>
   files (snd (solve_captcha fresh_env (demo_solver True ''ABCD'') 2 (demo_state (demo_page True 5))))
     ''captcha_failures/temp_captcha.png'' = Some (RawImage [4]) \<and>
   files (snd (solve_captcha fresh_env (demo_solver True ''ABCD'') 2 (demo_state (demo_page True 5))))
     ''captcha_failures/preprocessed_captcha.png'' = Some (BitmapImage [[4]]) \<and>
   dom (files (snd (solve_captcha fresh_env (demo_solver True ''ABCD'') 2 (demo_state (demo_page True 5))))) =
     {''captcha_failures/temp_captcha.png'', ''captcha_failures/preprocessed_captcha.png'',
      ''captcha_failures/captcha_screenshot_0.png'', ''captcha_failures/captcha_screenshot_1.png''} \<and>
   fst (playwright_solve_captcha demo_env (demo_solver True ''ABCD'') 3 (demo_state (demo_page True 0))) \<and>
   LogSolved \<in> set (trace (snd (playwright_solve_captcha demo_env (demo_solver True ''ABCD'') 3 (demo_state (demo_page True 0))))) \<and>
   files (snd (playwright_solve_captcha demo_env (demo_solver True ''ABCD'') 3 (demo_state (demo_page True 0))))
     ''captcha_failures/temp_captcha.png'' = Some (RawImage [1, 2, 3]) \<and>
   files (snd (playwright_solve_captcha demo_env (demo_solver True ''ABCD'') 3 (demo_state (demo_page True 0))))
     ''captcha_failures/preprocessed_captcha.png'' = Some (BitmapImage [[1, 2, 3]]) \<and>
   files (snd (playwright_solve_captcha demo_env (demo_solver True ''ABCD'') 3 (demo_state (demo_page True 0))))
     ''captcha_failures/captcha_screenshot_0.png'' = Some ScreenshotImage"
proof -
  have a: "solve_captcha demo_env (demo_solver True ''ABCD'') 3 (demo_state (demo_page True 1)) =
     (True, snd (solve_captcha demo_env (demo_solver True ''ABCD'') 3 (demo_state (demo_page True 1)))) \<and>
   attempt (snd (solve_captcha demo_env (demo_solver True ''ABCD'') 3 (demo_state (demo_page True 1)))) = 1 \<and>
   LogSolved \<in> set (trace (snd (solve_captcha demo_env (demo_solver True ''ABCD'') 3 (demo_state (demo_page True 1))))) \<and>
   files (snd (solve_captcha demo_env (demo_solver True ''ABCD'') 3 (demo_state (demo_page True 1))))
     ''captcha_failures/captcha_screenshot_0.png'' = Some ScreenshotImage"
    by (simp add: solve_captcha_def solve_loop.simps attempt_cycle_def verify_submission_def
        cleanup_files_def remove_file_def try_different_image_def next_attempt_def
        demo_dbg_eval)
  have b: "\<not> fst (solve_captcha fresh_env (demo_solver True ''ABCD'') 2 (demo_state (demo_page True 5))) \<and>
   downloads (trace (snd (solve_captcha fresh_env (demo_solver True ''ABCD'') 2 (demo_state (demo_page True 5))))) = [[5], [4]] \<and>
   files (snd (solve_captcha fresh_env (demo_solver True ''ABCD'') 2 (demo_state (demo_page True 5))))
     ''captcha_failures/temp_captcha.png'' = Some (RawImage [4]) \<and>
   files (snd (solve_captcha fresh_env (demo_solver True ''ABCD'') 2 (demo_state (demo_page True 5))))
     ''captcha_failures/preprocessed_captcha.png'' = Some (BitmapImage [[4]]) \<and>
   dom (files (snd (solve_captcha fresh_env (demo_solver True ''ABCD'') 2 (demo_state (demo_page True 5))))) =
     {''captcha_failures/temp_captcha.png'', ''captcha_failures/preprocessed_captcha.png'',
      ''captcha_failures/captcha_screenshot_0.png'', ''captcha_failures/captcha_screenshot_1.png''}"
    by (auto simp: solve_captcha_def solve_loop.simps attempt_cycle_def verify_submission_def
        cleanup_files_def remove_file_def try_different_image_def next_attempt_def
        fresh_env_def demo_dbg_eval)
  have c: "fst (playwright_solve_captcha demo_env (demo_solver True ''ABCD'') 3 (demo_state (demo_page True 0))) \<and>
   LogSolved \<in> set (trace (snd (playwright_solve_captcha demo_env (demo_solver True ''ABCD'') 3 (demo_state (demo_page True 0))))) \<and>
   files (snd (playwright_solve_captcha demo_env (demo_solver True ''ABCD'') 3 (demo_state (demo_page True 0))))
     ''captcha_failures/temp_captcha.png'' = Some (RawImage [1, 2, 3]) \<and>
   files (snd (playwright_solve_captcha demo_env (demo_solver True ''ABCD'') 3 (demo_state (demo_page True 0))))
     ''captcha_failures/preprocessed_captcha.png'' = Some (BitmapImage [[1, 2, 3]]) \<and>
   files (snd (playwright_solve_captcha demo_env (demo_solver True ''ABCD'') 3 (demo_state (demo_page True 0))))
     ''captcha_failures/captcha_screenshot_0.png'' = Some ScreenshotImage"
    by (simp add: playwright_solve_captcha_def playwright_loop.simps playwright_cycle_def
        playwright_submit_def playwright_verify_def try_different_image_def next_attempt_def
        demo_dbg_eval)
  from a have a': "fst (solve_captcha demo_env (demo_solver True ''ABCD'') 3 (demo_state (demo_page True 1)))"
    by (metis fst_conv)
  from a a' b c show ?thesis by (intro conjI) (elim conjE, assumption)+
qed

end
